theory Spec2Isabelle
  imports
    Complex_Main
    "HOL-Library.Char_ord"
    "HOL-Library.List_Lexorder"
    "HOL-Library.Product_Lexorder"
    "HOL-Library.Multiset"
begin

section \<open>Strings\<close>

text \<open>
  Python strings are modelled as \<open>string\<close>: a character is a code point below 256.
  The helpers below are the built-in string operations the routes use.
\<close>

definition is_digit :: "char \<Rightarrow> bool" where
  "is_digit c \<longleftrightarrow> CHR ''0'' \<le> c \<and> c \<le> CHR ''9''"

definition digit_val :: "char \<Rightarrow> nat" where
  "digit_val c = of_char c - 48"

definition digit_char :: "nat \<Rightarrow> char" where
  "digit_char n = char_of (48 + n)"

text \<open>\<open>str(n)\<close> for a non-negative integer: its decimal digits.\<close>

fun str_nat :: "nat \<Rightarrow> string" where
  "str_nat n = (if n < 10 then [digit_char n] else str_nat (n div 10) @ [digit_char (n mod 10)])"

declare str_nat.simps [simp del]

text \<open>\<open>int(s)\<close> on a string of decimal digits (the only strings it is applied to).\<close>

definition int_str :: "string \<Rightarrow> nat" where
  "int_str s = foldl (\<lambda>acc c. 10 * acc + digit_val c) 0 s"

text \<open>The format \<open>%0wd\<close>: decimal digits, padded with zeros on the left to width \<open>w\<close>.\<close>

definition zero_pad :: "nat \<Rightarrow> nat \<Rightarrow> string" where
  "zero_pad w n = replicate (w - length (str_nat n)) CHR ''0'' @ str_nat n"

text \<open>\<open>str.isspace\<close> on the code points below 256, and \<open>str.strip()\<close>.\<close>

definition is_space :: "char \<Rightarrow> bool" where
  "is_space c \<longleftrightarrow>
     (let n = (of_char c :: nat)
      in (9 \<le> n \<and> n \<le> 13) \<or> (28 \<le> n \<and> n \<le> 32) \<or> n = 133 \<or> n = 160)"

definition strip :: "string \<Rightarrow> string" where
  "strip s = rev (dropWhile is_space (rev (dropWhile is_space s)))"

text \<open>\<open>str.lower()\<close> on the code points below 256.\<close>

definition lower_char :: "char \<Rightarrow> char" where
  "lower_char c =
     (let n = (of_char c :: nat)
      in if (65 \<le> n \<and> n \<le> 90) \<or> (192 \<le> n \<and> n \<le> 222 \<and> n \<noteq> 215)
         then char_of (n + 32) else c)"

definition lower :: "string \<Rightarrow> string" where
  "lower s = map lower_char s"

section \<open>Dates\<close>

text \<open>
  \<open>datetime.date\<close>: year, month and day. A date object only exists for a year in
  1..9999 and a day of the month's length (\<open>valid_date\<close>); the constructor raises
  \<open>ValueError\<close> otherwise.
\<close>

record date =
  year :: nat
  month :: nat
  day :: nat

datatype error = ValueError string | UnexpectedError

definition is_leap :: "nat \<Rightarrow> bool" where
  "is_leap y \<longleftrightarrow> y mod 4 = 0 \<and> (y mod 100 \<noteq> 0 \<or> y mod 400 = 0)"

definition days_in_month :: "nat \<Rightarrow> nat \<Rightarrow> nat" where
  "days_in_month y m =
     (if m = 2 then (if is_leap y then 29 else 28)
      else if m = 4 \<or> m = 6 \<or> m = 9 \<or> m = 11 then 30 else 31)"

definition valid_date :: "date \<Rightarrow> bool" where
  "valid_date d \<longleftrightarrow>
     1 \<le> year d \<and> year d \<le> 9999 \<and> 1 \<le> month d \<and> month d \<le> 12 \<and>
     1 \<le> day d \<and> day d \<le> days_in_month (year d) (month d)"

text \<open>
  \<open>datetime.strptime(s, "%Y-%m-%d")\<close> compiles the format to the regular expression
  \<open>(?P<Y>\d\d\d\d)-(?P<m>1[0-2]|0[1-9]|[1-9])-(?P<d>3[0-1]|[1-2]\d|0[1-9]|[1-9]| [1-9])\<close>
  and matches it at the start of the string. Each directive is modelled by the list of
  its matches at the start of a string, in the order the alternatives are tried, each
  with the text that is left.
\<close>

definition in_range :: "char \<Rightarrow> char \<Rightarrow> char \<Rightarrow> bool" where
  "in_range lo hi c \<longleftrightarrow> lo \<le> c \<and> c \<le> hi"

definition alt_Y :: "string \<Rightarrow> (nat \<times> string) list" where
  "alt_Y s =
     (case s of
        a # b # c # d # r \<Rightarrow>
          if is_digit a \<and> is_digit b \<and> is_digit c \<and> is_digit d
          then [(int_str [a, b, c, d], r)] else []
      | _ \<Rightarrow> [])"

definition two_chars :: "(char \<Rightarrow> bool) \<Rightarrow> (char \<Rightarrow> bool) \<Rightarrow> string \<Rightarrow> (nat \<times> string) list" where
  "two_chars p q s =
     (case s of
        a # b # r \<Rightarrow> if p a \<and> q b then [(int_str (strip [a, b]), r)] else []
      | _ \<Rightarrow> [])"

definition one_char :: "(char \<Rightarrow> bool) \<Rightarrow> string \<Rightarrow> (nat \<times> string) list" where
  "one_char p s = (case s of a # r \<Rightarrow> if p a then [(int_str [a], r)] else [] | _ \<Rightarrow> [])"

definition alt_m :: "string \<Rightarrow> (nat \<times> string) list" where
  "alt_m s =
     two_chars (\<lambda>c. c = CHR ''1'') (in_range CHR ''0'' CHR ''2'') s
     @ two_chars (\<lambda>c. c = CHR ''0'') (in_range CHR ''1'' CHR ''9'') s
     @ one_char (in_range CHR ''1'' CHR ''9'') s"

definition alt_d :: "string \<Rightarrow> (nat \<times> string) list" where
  "alt_d s =
     two_chars (\<lambda>c. c = CHR ''3'') (in_range CHR ''0'' CHR ''1'') s
     @ two_chars (in_range CHR ''1'' CHR ''2'') is_digit s
     @ two_chars (\<lambda>c. c = CHR ''0'') (in_range CHR ''1'' CHR ''9'') s
     @ one_char (in_range CHR ''1'' CHR ''9'') s
     @ two_chars (\<lambda>c. c = CHR '' '') (in_range CHR ''1'' CHR ''9'') s"

definition dash :: "string \<Rightarrow> string list" where
  "dash s = (case s of c # r \<Rightarrow> if c = CHR ''-'' then [r] else [] | _ \<Rightarrow> [])"

text \<open>
  All matches of the whole expression, in backtracking order; \<open>re.match\<close> returns the
  first one.
\<close>

definition regex_ymd :: "string \<Rightarrow> (nat \<times> nat \<times> nat \<times> string) list" where
  "regex_ymd s =
     [(y, m, d, r). (y, r1) \<leftarrow> alt_Y s, r2 \<leftarrow> dash r1, (m, r3) \<leftarrow> alt_m r2,
                    r4 \<leftarrow> dash r3, (d, r) \<leftarrow> alt_d r4]"

text \<open>
  \<open>strptime\<close> raises \<open>ValueError\<close> when the expression does not match, when text is
  left after the match, and when the date constructor refuses the numbers. (The texts
  of these messages are shortened: no caller displays them.)
\<close>

definition strptime_ymd :: "string \<Rightarrow> error + date" where
  "strptime_ymd s =
     (case regex_ymd s of
        [] \<Rightarrow> Inl (ValueError ''time data does not match format'')
      | (y, m, d, r) # _ \<Rightarrow>
          if r \<noteq> [] then Inl (ValueError ''unconverted data remains'')
          else if valid_date \<lparr>year = y, month = m, day = d\<rparr>
          then Inr \<lparr>year = y, month = m, day = d\<rparr>
          else Inl (ValueError ''day is out of range for month''))"

text \<open>\<open>date.isoformat()\<close>: \<open>"%04d-%02d-%02d" % (year, month, day)\<close>.\<close>

definition isoformat :: "date \<Rightarrow> string" where
  "isoformat d = zero_pad 4 (year d) @ ''-'' @ zero_pad 2 (month d) @ ''-'' @ zero_pad 2 (day d)"

text \<open>
  \<open>_normalized_entry_date(raw_value)\<close>; \<open>today\<close> is what \<open>date.today()\<close> returns.
\<close>

definition normalized_entry_date :: "date \<Rightarrow> string option \<Rightarrow> error + string" where
  "normalized_entry_date today raw_value =
     (case raw_value of
        None \<Rightarrow> Inr (isoformat today)
      | Some s \<Rightarrow>
          if s = [] then Inr (isoformat today)
          else (case strptime_ymd s of
                  Inl e \<Rightarrow> Inl e
                | Inr parsed \<Rightarrow> Inr (isoformat parsed)))"

text \<open>The shape \<open>YYYY-MM-DD\<close>: four digits, two digits and two digits between dashes.\<close>

definition iso_form :: "string \<Rightarrow> bool" where
  "iso_form s \<longleftrightarrow>
     length s = 10 \<and> list_all is_digit (take 4 s) \<and> s ! 4 = CHR ''-'' \<and>
     list_all is_digit (take 2 (drop 5 s)) \<and> s ! 7 = CHR ''-'' \<and>
     list_all is_digit (drop 8 s)"

section \<open>Uploaded files and the request\<close>

text \<open>
  A werkzeug \<open>FileStorage\<close>: the file name the client sent (\<open>None\<close> when it sent
  none) and the content. Two things the environment decides while the file is saved
  are carried with it: \<open>uuid_hex\<close>, the value \<open>uuid4().hex\<close> returns for this file,
  and \<open>save_outcome\<close>, whether writing the content succeeds. \<open>Save_fails None\<close>
  raises before the destination file is created, \<open>Save_fails (Some part)\<close> raises
  after \<open>part\<close> has been written to it.
\<close>

datatype save_outcome = Saved | Save_fails "string option"

record file_storage =
  filename :: "string option"
  content :: string
  uuid_hex :: string
  save_outcome :: save_outcome

text \<open>
  \<open>request.form\<close> and \<open>request.files\<close> are multi-dicts: lists of (key, value) in the
  order the client sent them. \<open>get\<close> returns the first value of a key, \<open>getlist\<close> all
  of them.
\<close>

record request =
  form :: "(string \<times> string) list"
  files :: "(string \<times> file_storage) list"

definition multi_get :: "(string \<times> 'a) list \<Rightarrow> string \<Rightarrow> 'a option" where
  "multi_get md k = map_of md k"

definition get_default :: "(string \<times> string) list \<Rightarrow> string \<Rightarrow> string \<Rightarrow> string" where
  "get_default md k dflt = (case multi_get md k of None \<Rightarrow> dflt | Some v \<Rightarrow> v)"

definition getlist :: "(string \<times> 'a) list \<Rightarrow> string \<Rightarrow> 'a list" where
  "getlist md k = map snd (filter (\<lambda>kv. fst kv = k) md)"

text \<open>\<open>image.filename\<close> is neither \<open>None\<close> nor empty.\<close>

definition has_filename :: "file_storage \<Rightarrow> bool" where
  "has_filename f = (case filename f of None \<Rightarrow> False | Some n \<Rightarrow> n \<noteq> [])"

section \<open>The image store\<close>

text \<open>
  The upload directory, keyed by the path relative to its root (posix form): a regular
  file with its content, or a directory.
\<close>

datatype node = File string | Dir

type_synonym fs = "string \<Rightarrow> node option"

text \<open>
  werkzeug's \<open>secure_filename\<close> (posix): NFKD normalisation and ASCII encoding with
  errors ignored (\<open>nfkd_ascii\<close>, for the code points below 256), path separators
  replaced by spaces, whitespace runs joined by an underscore, every character outside
  \<open>[A-Za-z0-9_.-]\<close> removed, and dots and underscores stripped from both ends.
\<close>

definition nfkd_ascii :: "char \<Rightarrow> string" where
  "nfkd_ascii c =
     (let n = (of_char c :: nat)
      in if n < 128 then [c]
         else if n = 160 \<or> n = 168 \<or> n = 175 \<or> n = 180 \<or> n = 184 then '' ''
         else if n = 170 then ''a'' else if n = 186 then ''o''
         else if n = 178 then ''2'' else if n = 179 then ''3'' else if n = 185 then ''1''
         else if n = 188 then ''14'' else if n = 189 then ''12'' else if n = 190 then ''34''
         else if 192 \<le> n \<and> n \<le> 197 then ''A'' else if n = 199 then ''C''
         else if 200 \<le> n \<and> n \<le> 203 then ''E'' else if 204 \<le> n \<and> n \<le> 207 then ''I''
         else if n = 209 then ''N'' else if 210 \<le> n \<and> n \<le> 214 then ''O''
         else if 217 \<le> n \<and> n \<le> 220 then ''U'' else if n = 221 then ''Y''
         else if 224 \<le> n \<and> n \<le> 229 then ''a'' else if n = 231 then ''c''
         else if 232 \<le> n \<and> n \<le> 235 then ''e'' else if 236 \<le> n \<and> n \<le> 239 then ''i''
         else if n = 241 then ''n'' else if 242 \<le> n \<and> n \<le> 246 then ''o''
         else if 249 \<le> n \<and> n \<le> 252 then ''u'' else if n = 253 \<or> n = 255 then ''y''
         else [])"

text \<open>\<open>s.split()\<close>: the words between runs of whitespace; \<open>cur\<close> is the word being read.\<close>

fun split_ws :: "string \<Rightarrow> string \<Rightarrow> string list" where
  "split_ws cur [] = (if cur = [] then [] else [cur])"
| "split_ws cur (c # cs) =
     (if is_space c then (if cur = [] then split_ws [] cs else cur # split_ws [] cs)
      else split_ws (cur @ [c]) cs)"

fun join_with :: "string \<Rightarrow> string list \<Rightarrow> string" where
  "join_with sep [] = []"
| "join_with sep [w] = w"
| "join_with sep (w # ws) = w @ sep @ join_with sep ws"

definition filename_char :: "char \<Rightarrow> bool" where
  "filename_char c \<longleftrightarrow>
     in_range CHR ''A'' CHR ''Z'' c \<or> in_range CHR ''a'' CHR ''z'' c \<or> is_digit c \<or>
     c = CHR ''_'' \<or> c = CHR ''.'' \<or> c = CHR ''-''"

definition strip_chars :: "(char \<Rightarrow> bool) \<Rightarrow> string \<Rightarrow> string" where
  "strip_chars p s = rev (dropWhile p (rev (dropWhile p s)))"

definition secure_filename :: "string \<Rightarrow> string" where
  "secure_filename name =
     (let ascii = concat (map nfkd_ascii name);
          spaced = map (\<lambda>c. if c = CHR ''/'' then CHR '' '' else c) ascii;
          joined = join_with ''_'' (split_ws [] spaced)
      in strip_chars (\<lambda>c. c = CHR ''.'' \<or> c = CHR ''_'') (filter filename_char joined))"

text \<open>\<open>ALLOWED_IMAGE_EXTENSIONS\<close> of the application's configuration.\<close>

definition ALLOWED_IMAGE_EXTENSIONS :: "string list" where
  "ALLOWED_IMAGE_EXTENSIONS = [''jpg'', ''jpeg'', ''png'', ''webp'', ''gif'', ''heic'', ''heif'']"

text \<open>\<open>filename.rsplit(".", 1)[1]\<close> of a name with a dot: the text after its last dot.\<close>

definition after_last_dot :: "string \<Rightarrow> string" where
  "after_last_dot name = rev (takeWhile (\<lambda>c. c \<noteq> CHR ''.'') (rev name))"

definition allowed_image :: "string \<Rightarrow> bool" where
  "allowed_image name =
     (if CHR ''.'' \<notin> set name then False
      else lower (after_last_dot name) \<in> set ALLOWED_IMAGE_EXTENSIONS)"

text \<open>
  \<open>Path(name).suffix\<close>: with \<open>i\<close> the index of the last dot of the final path
  component, the text from \<open>i\<close> on when \<open>0 < i < len - 1\<close>, and the empty string
  otherwise.
\<close>

definition path_name :: "string \<Rightarrow> string" where
  "path_name p = rev (takeWhile (\<lambda>c. c \<noteq> CHR ''/'') (rev p))"

definition path_suffix :: "string \<Rightarrow> string" where
  "path_suffix p =
     (let name = path_name p; ext = after_last_dot name
      in if CHR ''.'' \<in> set name \<and> length ext + 1 < length name \<and> ext \<noteq> []
         then CHR ''.'' # ext else [])"

text \<open>\<open>Path.exists()\<close> and \<open>Path.is_file()\<close>.\<close>

definition path_exists :: "fs \<Rightarrow> string \<Rightarrow> bool" where
  "path_exists disk p = (case disk p of None \<Rightarrow> False | Some _ \<Rightarrow> True)"

definition is_file :: "fs \<Rightarrow> string \<Rightarrow> bool" where
  "is_file disk p = (case disk p of Some (File _) \<Rightarrow> True | _ \<Rightarrow> False)"

text \<open>
  \<open>destination_dir.mkdir(parents=True, exist_ok=True)\<close> for the three-level directory
  of a date: it raises \<open>OSError\<close> when one of the levels exists and is not a directory.
\<close>

definition mkdir_parents :: "string \<Rightarrow> string \<Rightarrow> string \<Rightarrow> fs \<Rightarrow> error + fs" where
  "mkdir_parents y m d disk =
     (let levels = [y, y @ ''/'' @ m, y @ ''/'' @ m @ ''/'' @ d]
      in if \<exists>p \<in> set levels. is_file disk p then Inl UnexpectedError
         else Inr (\<lambda>p. if p \<in> set levels then Some Dir else disk p))"

text \<open>
  \<open>file_storage.save(absolute_path)\<close>: opening a directory for writing raises; a write may
  fail as the file's \<open>save_outcome\<close> says. The disk is returned in both cases.
\<close>

definition file_save :: "file_storage \<Rightarrow> string \<Rightarrow> fs \<Rightarrow> (error + unit) \<times> fs" where
  "file_save f path disk =
     (if disk path = Some Dir then (Inl UnexpectedError, disk)
      else (case save_outcome f of
              Saved \<Rightarrow> (Inr (), disk(path \<mapsto> File (content f)))
            | Save_fails None \<Rightarrow> (Inl UnexpectedError, disk)
            | Save_fails (Some part) \<Rightarrow> (Inl UnexpectedError, disk(path \<mapsto> File part))))"

text \<open>\<open>secure_filename(file_storage.filename or "")\<close>.\<close>

definition sanitized_name :: "file_storage \<Rightarrow> string" where
  "sanitized_name f = secure_filename (case filename f of None \<Rightarrow> [] | Some n \<Rightarrow> n)"

definition save_uploaded_image ::
  "file_storage \<Rightarrow> string \<Rightarrow> string \<Rightarrow> fs \<Rightarrow> (error + string) \<times> fs" where
  "save_uploaded_image file_storage entry_date role disk =
     (let original_name = sanitized_name file_storage
      in if original_name = [] then (Inl (ValueError ''Image filename is missing.''), disk)
         else if \<not> allowed_image original_name
         then (Inl (ValueError (''Unsupported image format for '' @ [CHR 0x27] @ original_name
                 @ [CHR 0x27] @ ''. Use jpg, png, webp, gif, heic, or heif.'')), disk)
         else (case strptime_ymd entry_date of
                 Inl e \<Rightarrow> (Inl e, disk)
               | Inr parsed_date \<Rightarrow>
                   (let y = zero_pad 4 (year parsed_date);
                        m = zero_pad 2 (month parsed_date);
                        d = zero_pad 2 (day parsed_date);
                        extension = lower (path_suffix original_name);
                        name = role @ ''-'' @ uuid_hex file_storage @ extension;
                        relative_path = y @ ''/'' @ m @ ''/'' @ d @ ''/'' @ name
                    in (case mkdir_parents y m d disk of
                          Inl e \<Rightarrow> (Inl e, disk)
                        | Inr disk1 \<Rightarrow>
                            (case file_save file_storage relative_path disk1 of
                               (Inl e, disk2) \<Rightarrow> (Inl e, disk2)
                             | (Inr _, disk2) \<Rightarrow> (Inr relative_path, disk2))))))"

text \<open>The directories \<open>YYYY\<close>, \<open>YYYY/MM\<close> and \<open>YYYY/MM/DD\<close> of a date.\<close>

definition date_dirs :: "date \<Rightarrow> string list" where
  "date_dirs d =
     [zero_pad 4 (year d),
      zero_pad 4 (year d) @ ''/'' @ zero_pad 2 (month d),
      zero_pad 4 (year d) @ ''/'' @ zero_pad 2 (month d) @ ''/'' @ zero_pad 2 (day d)]"

text \<open>
  The relative path \<open>_save_uploaded_image\<close> builds for a file saved under the date
  \<open>d\<close> with the given role.
\<close>

definition stored_path :: "date \<Rightarrow> string \<Rightarrow> file_storage \<Rightarrow> string" where
  "stored_path d role f =
     zero_pad 4 (year d) @ ''/'' @ zero_pad 2 (month d) @ ''/'' @ zero_pad 2 (day d) @ ''/'' @
     role @ ''-'' @ uuid_hex f @ lower (path_suffix (sanitized_name f))"

text \<open>
  \<open>Path.unlink\<close> raises when the path is missing or a directory. \<open>_delete_image\<close>
  guards the call with \<open>exists()\<close> and \<open>is_file()\<close>.
\<close>

definition unlink :: "string \<Rightarrow> fs \<Rightarrow> error + fs" where
  "unlink p disk = (if is_file disk p then Inr (disk(p := None)) else Inl UnexpectedError)"

definition delete_image :: "string \<Rightarrow> fs \<Rightarrow> error + fs" where
  "delete_image relative_path disk =
     (if relative_path = [] then Inr disk
      else if path_exists disk relative_path \<and> is_file disk relative_path
      then unlink relative_path disk
      else Inr disk)"

text \<open>\<open>for relative_path in paths: _delete_image(relative_path)\<close>.\<close>

fun delete_images :: "string list \<Rightarrow> fs \<Rightarrow> (error + unit) \<times> fs" where
  "delete_images [] disk = (Inr (), disk)"
| "delete_images (p # ps) disk =
     (case delete_image p disk of
        Inl e \<Rightarrow> (Inl e, disk)
      | Inr disk' \<Rightarrow> delete_images ps disk')"

section \<open>The relational store\<close>

text \<open>The tables \<open>entries\<close> and \<open>assets\<close>, each a list of rows in insertion order.\<close>

datatype asset_kind = notebook_page | photo

record entry =
  e_id :: nat
  entry_date :: string
  title :: string
  body_markdown :: string
  created_at :: string
  updated_at :: string

record asset =
  a_id :: nat
  entry_id :: nat
  kind :: asset_kind
  file_path :: string
  caption :: string
  sort_index :: int
  a_created_at :: string

record database =
  entries :: "entry list"
  assets :: "asset list"

text \<open>
  Modelled from the spec: \<open>schema.sql\<close> is not among the sources. The spec says of
  both tables that \<open>id\<close> is an "opaque unique identifier, generated by the store on
  creation"; the model takes the successor of the largest id in the table.
\<close>

definition next_id :: "nat list \<Rightarrow> nat" where
  "next_id ids = Suc (fold max ids 0)"

text \<open>\<open>INSERT INTO entries (...) VALUES (...)\<close>, with \<open>cursor.lastrowid\<close>.\<close>

definition insert_entry ::
  "string \<Rightarrow> string \<Rightarrow> string \<Rightarrow> string \<Rightarrow> string \<Rightarrow> database \<Rightarrow> nat \<times> database" where
  "insert_entry edate ttl body created updated db =
     (let new_id = next_id (map e_id (entries db))
      in (new_id,
          db\<lparr>entries := entries db @
             [\<lparr>e_id = new_id, entry_date = edate, title = ttl, body_markdown = body,
               created_at = created, updated_at = updated\<rparr>]\<rparr>))"

text \<open>\<open>INSERT INTO assets (entry_id, kind, file_path, caption, sort_index, created_at)\<close>.\<close>

definition insert_asset ::
  "nat \<Rightarrow> asset_kind \<Rightarrow> string \<Rightarrow> string \<Rightarrow> int \<Rightarrow> string \<Rightarrow> database \<Rightarrow> database" where
  "insert_asset eid k path cap ix created db =
     db\<lparr>assets := assets db @
        [\<lparr>a_id = next_id (map a_id (assets db)), entry_id = eid, kind = k, file_path = path,
          caption = cap, sort_index = ix, a_created_at = created\<rparr>]\<rparr>"

text \<open>\<open>UPDATE ... SET ... WHERE\<close> and \<open>DELETE FROM ... WHERE\<close> on a table.\<close>

definition update_where :: "('r \<Rightarrow> bool) \<Rightarrow> ('r \<Rightarrow> 'r) \<Rightarrow> 'r list \<Rightarrow> 'r list" where
  "update_where p f rows = map (\<lambda>r. if p r then f r else r) rows"

definition delete_where :: "('r \<Rightarrow> bool) \<Rightarrow> 'r list \<Rightarrow> 'r list" where
  "delete_where p rows = filter (\<lambda>r. \<not> p r) rows"

text \<open>
  Modelled from the spec: \<open>schema.sql\<close> is not among the sources. \<open>DELETE FROM entries
  WHERE id = ?\<close> is, in the spec's words, "a hard delete with cascading removal of
  owned asset rows (relational cascade by foreign key)".
\<close>

definition delete_entry :: "nat \<Rightarrow> database \<Rightarrow> database" where
  "delete_entry eid db =
     \<lparr>entries = delete_where (\<lambda>e. e_id e = eid) (entries db),
      assets = delete_where (\<lambda>a. entry_id a = eid) (assets db)\<rparr>"

section \<open>Reading entries\<close>

text \<open>
  \<open>_fetch_entry_assets\<close>: the entry's rows ordered by \<open>CASE kind WHEN 'notebook_page'
  THEN 0 ELSE 1 END, sort_index ASC, id ASC\<close>, then split by the loop into the notebook
  (the last notebook row seen) and the photos. The \<open>url\<close> attached to each asset comes
  from the routing layer and is left out.
\<close>

definition asset_order :: "asset \<Rightarrow> nat \<times> int \<times> nat" where
  "asset_order a = (if kind a = notebook_page then 0 else 1, sort_index a, a_id a)"

definition fetch_entry_assets :: "database \<Rightarrow> nat \<Rightarrow> asset option \<times> asset list" where
  "fetch_entry_assets db eid =
     (let rows = sort_key asset_order (filter (\<lambda>a. entry_id a = eid) (assets db))
      in foldl (\<lambda>(notebook, photos) a.
                  if kind a = notebook_page then (Some a, photos) else (notebook, photos @ [a]))
               (None, []) rows)"

text \<open>An assembled entry; the rendered \<open>body_html\<close> is left out.\<close>

record entry_view =
  row :: entry
  notebook :: "asset option"
  photos :: "asset list"

definition assemble :: "database \<Rightarrow> entry \<Rightarrow> entry_view" where
  "assemble db e =
     (let (nb, ph) = fetch_entry_assets db (e_id e)
      in \<lparr>row = e, notebook = nb, photos = ph\<rparr>)"

definition fetch_entry :: "database \<Rightarrow> nat \<Rightarrow> entry_view option" where
  "fetch_entry db eid =
     (case filter (\<lambda>e. e_id e = eid) (entries db) of
        [] \<Rightarrow> None
      | e # _ \<Rightarrow> Some (assemble db e))"

text \<open>
  \<open>LIMIT ? OFFSET ?\<close>: a negative limit is no limit, a negative offset is no offset.
\<close>

definition limit_offset :: "int \<Rightarrow> int \<Rightarrow> 'r list \<Rightarrow> 'r list" where
  "limit_offset n_limit n_offset rows =
     (let rest = drop (nat n_offset) rows
      in if n_limit < 0 then rest else take (nat n_limit) rest)"

text \<open>\<open>ORDER BY entry_date DESC, id DESC\<close>.\<close>

definition entries_desc :: "database \<Rightarrow> entry list" where
  "entries_desc db = rev (sort_key (\<lambda>e. (entry_date e, e_id e)) (entries db))"

text \<open>
  The order the claims speak of: \<open>newer a b\<close> when \<open>a\<close> may stand before \<open>b\<close> in a
  list ordered by entry date descending, then id descending.
\<close>

definition newer :: "entry \<Rightarrow> entry \<Rightarrow> bool" where
  "newer a b \<longleftrightarrow>
     entry_date b < entry_date a \<or> (entry_date a = entry_date b \<and> e_id b \<le> e_id a)"

text \<open>
  \<open>_fetch_entries(page, per_page)\<close>; \<open>//\<close> is floor division and raises on a zero
  divisor.
\<close>

definition fetch_entries :: "int \<Rightarrow> int \<Rightarrow> database \<Rightarrow> error + (entry_view list \<times> int)" where
  "fetch_entries pg per_page db =
     (let total_entries = int (length (entries db))
      in if total_entries = 0 then Inr ([], 0)
         else if per_page = 0 then Inl UnexpectedError
         else (let total_pages = (total_entries + per_page - 1) div per_page;
                   safe_page = max 1 (min pg total_pages);
                   offset = (safe_page - 1) * per_page;
                   rows = limit_offset per_page offset (entries_desc db)
               in Inr (map (assemble db) rows, total_pages)))"

section \<open>The write workflow\<close>

text \<open>
  The state a \<open>try\<close> block works on: the connection's view of the database (the
  uncommitted transaction), the disk, and the two lists the views keep,
  \<open>saved_files\<close> and (in \<open>admin_edit\<close>) \<open>files_to_remove_after_commit\<close>. A step that
  raises returns the error with the state it leaves.
\<close>

record attempt =
  conn :: database
  disk :: fs
  saved_files :: "string list"
  files_to_remove_after_commit :: "string list"

text \<open>
  The loop of \<open>_store_new_photos\<close> over \<open>enumerate(files)\<close>, from position \<open>index\<close>
  on.
\<close>

fun store_photos_from ::
  "nat \<Rightarrow> string \<Rightarrow> string list \<Rightarrow> string \<Rightarrow> nat \<Rightarrow> file_storage list \<Rightarrow> int \<Rightarrow> attempt
   \<Rightarrow> (error + int) \<times> attempt" where
  "store_photos_from eid edate captions timestamp index [] ix st = (Inr ix, st)"
| "store_photos_from eid edate captions timestamp index (img # rest) ix st =
     (if \<not> has_filename img
      then store_photos_from eid edate captions timestamp (Suc index) rest ix st
      else (let cap = (if index < length captions then strip (captions ! index) else [])
            in (case save_uploaded_image img edate ''photo'' (disk st) of
                  (Inl e, disk') \<Rightarrow> (Inl e, st\<lparr>disk := disk'\<rparr>)
                | (Inr relative_path, disk') \<Rightarrow>
                    store_photos_from eid edate captions timestamp (Suc index) rest (ix + 1)
                      (st\<lparr>disk := disk',
                          saved_files := saved_files st @ [relative_path],
                          conn := insert_asset eid photo relative_path cap ix timestamp
                                    (conn st)\<rparr>))))"

definition store_new_photos ::
  "nat \<Rightarrow> string \<Rightarrow> file_storage list \<Rightarrow> string list \<Rightarrow> int \<Rightarrow> string \<Rightarrow> attempt
   \<Rightarrow> (error + int) \<times> attempt" where
  "store_new_photos eid edate fs captions starting_sort_index timestamp st =
     store_photos_from eid edate captions timestamp 0 fs starting_sort_index st"

text \<open>What a view returns: the messages it flashed (text, category) and the page.\<close>

datatype page =
    Redirect_index_entry nat
  | Render_new_form string string string string
  | Redirect_admin_edit nat
  | Redirect_admin_dashboard
  | Not_found
  | Internal_error

record response =
  flashes :: "(string \<times> string) list"
  page :: page

text \<open>The database and the upload directory between requests.\<close>

record world =
  w_db :: database
  w_disk :: fs

text \<open>What the environment gives a request: \<open>date.today()\<close> and \<open>_utc_now_iso()\<close>.\<close>

record env =
  today :: date
  utc_now_iso :: string

subsection \<open>Create\<close>

text \<open>The notebook step of \<open>admin_new\<close>.\<close>

definition new_notebook ::
  "nat \<Rightarrow> string \<Rightarrow> string \<Rightarrow> string \<Rightarrow> file_storage option \<Rightarrow> attempt
   \<Rightarrow> (error + unit) \<times> attempt" where
  "new_notebook new_id edate notebook_caption timestamp notebook_file st =
     (case notebook_file of
        None \<Rightarrow> (Inr (), st)
      | Some f \<Rightarrow>
          if \<not> has_filename f then (Inr (), st)
          else (case save_uploaded_image f edate ''notebook'' (disk st) of
                  (Inl e, disk') \<Rightarrow> (Inl e, st\<lparr>disk := disk'\<rparr>)
                | (Inr notebook_path, disk') \<Rightarrow>
                    (Inr (),
                     st\<lparr>disk := disk',
                        saved_files := saved_files st @ [notebook_path],
                        conn := insert_asset new_id notebook_page notebook_path
                                  notebook_caption 0 timestamp (conn st)\<rparr>)))"

text \<open>The \<open>try\<close> block of \<open>admin_new\<close> up to the commit.\<close>

definition new_try ::
  "string \<Rightarrow> string \<Rightarrow> string \<Rightarrow> string \<Rightarrow> file_storage option \<Rightarrow> file_storage list
   \<Rightarrow> string list \<Rightarrow> string \<Rightarrow> attempt \<Rightarrow> (error + nat) \<times> attempt" where
  "new_try edate ttl body notebook_caption notebook_file photo_files photo_captions timestamp st =
     (let (new_id, db1) = insert_entry edate ttl body timestamp timestamp (conn st)
      in (case new_notebook new_id edate notebook_caption timestamp notebook_file
                 (st\<lparr>conn := db1\<rparr>) of
            (Inl e, st2) \<Rightarrow> (Inl e, st2)
          | (Inr _, st2) \<Rightarrow>
              (case store_new_photos new_id edate photo_files photo_captions 0 timestamp st2 of
                 (Inl e, st3) \<Rightarrow> (Inl e, st3)
               | (Inr _, st3) \<Rightarrow> (Inr new_id, st3))))"

text \<open>
  The start of \<open>admin_new\<close> on a POST request: the entry date and what is flashed about
  it. A date that does not parse is reported and replaced by today's date; the view
  goes on.
\<close>

definition create_date :: "env \<Rightarrow> request \<Rightarrow> string \<times> (string \<times> string) list" where
  "create_date ev req =
     (case normalized_entry_date (today ev) (multi_get (form req) ''entry_date'') of
        Inl _ \<Rightarrow>
          (isoformat (today ev), [(''Entry date must be in YYYY-MM-DD format.'', ''error'')])
      | Inr d \<Rightarrow> (d, []))"

text \<open>
  The state a \<open>try\<close> block starts from: the database and disk as the request finds
  them, and the two lists empty.
\<close>

definition start_attempt :: "world \<Rightarrow> attempt" where
  "start_attempt w =
     \<lparr>conn = w_db w, disk = w_disk w, saved_files = [], files_to_remove_after_commit = []\<rparr>"

text \<open>The \<open>try\<close> block as \<open>admin_new\<close> runs it for a request, up to the commit.\<close>

definition create_attempt :: "env \<Rightarrow> request \<Rightarrow> world \<Rightarrow> (error + nat) \<times> attempt" where
  "create_attempt ev req w =
     new_try (fst (create_date ev req))
       (strip (get_default (form req) ''title'' []))
       (strip (get_default (form req) ''body_markdown'' []))
       (strip (get_default (form req) ''notebook_caption'' []))
       (multi_get (files req) ''notebook_page'')
       (getlist (files req) ''photos'') (getlist (form req) ''photo_caption'')
       (utc_now_iso ev)
       (start_attempt w)"

text \<open>
  \<open>admin_new\<close> on a POST request. A commit keeps the attempt's database; a rollback
  keeps the database the request started from, and the files saved by the attempt are
  deleted. An exception in that clean-up would leave the view.
\<close>

definition admin_new :: "env \<Rightarrow> request \<Rightarrow> world \<Rightarrow> response \<times> world" where
  "admin_new ev req w =
     (let (edate, date_flash) = create_date ev req;
          ttl = strip (get_default (form req) ''title'' []);
          body = strip (get_default (form req) ''body_markdown'' []);
          notebook_caption = strip (get_default (form req) ''notebook_caption'' [])
      in (case create_attempt ev req w of
            (Inr new_id, st) \<Rightarrow>
              (\<lparr>flashes = date_flash @ [(''Entry published.'', ''success'')],
                page = Redirect_index_entry new_id\<rparr>,
               \<lparr>w_db = conn st, w_disk = disk st\<rparr>)
          | (Inl e, st) \<Rightarrow>
              (case delete_images (saved_files st) (disk st) of
                 (Inl _, disk') \<Rightarrow>
                   (\<lparr>flashes = date_flash, page = Internal_error\<rparr>,
                    \<lparr>w_db = w_db w, w_disk = disk'\<rparr>)
               | (Inr _, disk') \<Rightarrow>
                   (\<lparr>flashes = date_flash @
                       [(case e of
                           ValueError msg \<Rightarrow> msg
                         | UnexpectedError \<Rightarrow> ''Could not publish entry. Please try again.'',
                         ''error'')],
                     page = Render_new_form edate ttl body notebook_caption\<rparr>,
                    \<lparr>w_db = w_db w, w_disk = disk'\<rparr>))))"

subsection \<open>Update\<close>

text \<open>The notebook step of \<open>admin_edit\<close>.\<close>

definition edit_notebook ::
  "nat \<Rightarrow> string \<Rightarrow> string \<Rightarrow> string \<Rightarrow> file_storage option \<Rightarrow> asset option \<Rightarrow> attempt
   \<Rightarrow> (error + unit) \<times> attempt" where
  "edit_notebook eid edate notebook_caption timestamp notebook_replacement existing_notebook st =
     (let caption_only =
            (case existing_notebook of
               None \<Rightarrow> (Inr (), st)
             | Some nb \<Rightarrow>
                 (Inr (),
                  st\<lparr>conn := (conn st)\<lparr>assets :=
                        update_where (\<lambda>a. a_id a = a_id nb)
                          (\<lambda>a. a\<lparr>caption := notebook_caption\<rparr>) (assets (conn st))\<rparr>\<rparr>))
      in (case notebook_replacement of
            None \<Rightarrow> caption_only
          | Some f \<Rightarrow>
              if \<not> has_filename f then caption_only
              else (case save_uploaded_image f edate ''notebook'' (disk st) of
                      (Inl e, disk') \<Rightarrow> (Inl e, st\<lparr>disk := disk'\<rparr>)
                    | (Inr new_notebook_path, disk') \<Rightarrow>
                        (let st1 = st\<lparr>disk := disk',
                                       saved_files := saved_files st @ [new_notebook_path]\<rparr>
                         in (case existing_notebook of
                               Some nb \<Rightarrow>
                                 (Inr (),
                                  st1\<lparr>conn := (conn st1)\<lparr>assets :=
                                         update_where (\<lambda>a. a_id a = a_id nb)
                                           (\<lambda>a. a\<lparr>file_path := new_notebook_path,
                                                  caption := notebook_caption,
                                                  a_created_at := timestamp\<rparr>)
                                           (assets (conn st1))\<rparr>,
                                      files_to_remove_after_commit :=
                                        files_to_remove_after_commit st1 @ [file_path nb]\<rparr>)
                             | None \<Rightarrow>
                                 (Inr (),
                                  st1\<lparr>conn := insert_asset eid notebook_page new_notebook_path
                                             notebook_caption 0 timestamp (conn st1)\<rparr>))))))"

text \<open>
  The loop of \<open>admin_edit\<close> over \<open>enumerate(existing_photo_ids)\<close>, from position
  \<open>index\<close> on. \<open>existing_photo_paths\<close> is the dictionary from \<open>str(id)\<close> to the file
  path of the entry's photos; \<open>int(raw_photo_id)\<close> is only reached for one of its keys.
\<close>

fun update_existing_photos ::
  "nat \<Rightarrow> (string \<Rightarrow> string option) \<Rightarrow> string list \<Rightarrow> string list \<Rightarrow> nat \<Rightarrow> string list
   \<Rightarrow> int \<Rightarrow> attempt \<Rightarrow> int \<times> attempt" where
  "update_existing_photos eid existing_photo_paths delete_photo_ids captions index [] ix st =
     (ix, st)"
| "update_existing_photos eid existing_photo_paths delete_photo_ids captions index
     (raw_photo_id # rest) ix st =
     (case existing_photo_paths raw_photo_id of
        None \<Rightarrow>
          update_existing_photos eid existing_photo_paths delete_photo_ids captions
            (Suc index) rest ix st
      | Some path \<Rightarrow>
          (let photo_id = int_str raw_photo_id
           in if raw_photo_id \<in> set delete_photo_ids
              then update_existing_photos eid existing_photo_paths delete_photo_ids captions
                     (Suc index) rest ix
                     (st\<lparr>conn := (conn st)\<lparr>assets :=
                            delete_where
                              (\<lambda>a. a_id a = photo_id \<and> entry_id a = eid \<and> kind a = photo)
                              (assets (conn st))\<rparr>,
                         files_to_remove_after_commit :=
                           files_to_remove_after_commit st @ [path]\<rparr>)
              else (let cap = (if index < length captions then strip (captions ! index)
                               else [])
                    in update_existing_photos eid existing_photo_paths delete_photo_ids
                         captions (Suc index) rest (ix + 1)
                         (st\<lparr>conn := (conn st)\<lparr>assets :=
                                update_where
                                  (\<lambda>a. a_id a = photo_id \<and> entry_id a = eid \<and> kind a = photo)
                                  (\<lambda>a. a\<lparr>caption := cap, sort_index := ix\<rparr>)
                                  (assets (conn st))\<rparr>\<rparr>))))"

text \<open>The \<open>try\<close> block of \<open>admin_edit\<close> up to the commit.\<close>

definition edit_try ::
  "nat \<Rightarrow> string \<Rightarrow> string \<Rightarrow> string \<Rightarrow> string \<Rightarrow> string \<Rightarrow> asset option
   \<Rightarrow> (string \<Rightarrow> string option) \<Rightarrow> request \<Rightarrow> attempt \<Rightarrow> (error + unit) \<times> attempt" where
  "edit_try eid edate ttl body notebook_caption timestamp existing_notebook
     existing_photo_paths req st =
     (let st1 = st\<lparr>conn := (conn st)\<lparr>entries :=
                   update_where (\<lambda>e. e_id e = eid)
                     (\<lambda>e. e\<lparr>entry_date := edate, title := ttl, body_markdown := body,
                            updated_at := timestamp\<rparr>)
                     (entries (conn st))\<rparr>\<rparr>
      in (case edit_notebook eid edate notebook_caption timestamp
                 (multi_get (files req) ''notebook_page'') existing_notebook st1 of
            (Inl e, st2) \<Rightarrow> (Inl e, st2)
          | (Inr _, st2) \<Rightarrow>
              (let (ix, st3) =
                     update_existing_photos eid existing_photo_paths
                       (getlist (form req) ''existing_photo_delete'')
                       (getlist (form req) ''existing_photo_caption'') 0
                       (getlist (form req) ''existing_photo_id'') 0 st2
               in (case store_new_photos eid edate (getlist (files req) ''new_photos'')
                          (getlist (form req) ''new_photo_caption'') ix timestamp st3 of
                     (Inl e, st4) \<Rightarrow> (Inl e, st4)
                   | (Inr _, st4) \<Rightarrow> (Inr (), st4)))))"

text \<open>
  What \<open>admin_edit\<close> reads before the \<open>try\<close> block: the entry's notebook row
  (\<open>LIMIT 1\<close>) and the dictionary from \<open>str(id)\<close> to the file path of its photos.
\<close>

definition existing_notebook_of :: "database \<Rightarrow> nat \<Rightarrow> asset option" where
  "existing_notebook_of db eid =
     (case filter (\<lambda>a. entry_id a = eid \<and> kind a = notebook_page) (assets db) of
        [] \<Rightarrow> None
      | a # _ \<Rightarrow> Some a)"

definition existing_photos_of :: "database \<Rightarrow> nat \<Rightarrow> asset list" where
  "existing_photos_of db eid =
     sort_key (\<lambda>a. (sort_index a, a_id a))
       (filter (\<lambda>a. entry_id a = eid \<and> kind a = photo) (assets db))"

definition existing_photo_paths_of :: "database \<Rightarrow> nat \<Rightarrow> string \<Rightarrow> string option" where
  "existing_photo_paths_of db eid =
     map_of (rev (map (\<lambda>r. (str_nat (a_id r), file_path r)) (existing_photos_of db eid)))"

text \<open>
  The \<open>try\<close> block as \<open>admin_edit\<close> runs it for a request with the normalised date
  \<open>edate\<close>, up to the commit.
\<close>

definition edit_attempt ::
  "env \<Rightarrow> nat \<Rightarrow> string \<Rightarrow> request \<Rightarrow> world \<Rightarrow> (error + unit) \<times> attempt" where
  "edit_attempt ev eid edate req w =
     edit_try eid edate
       (strip (get_default (form req) ''title'' []))
       (strip (get_default (form req) ''body_markdown'' []))
       (strip (get_default (form req) ''notebook_caption'' []))
       (utc_now_iso ev)
       (existing_notebook_of (w_db w) eid)
       (existing_photo_paths_of (w_db w) eid)
       req
       (start_attempt w)"

text \<open>
  \<open>admin_edit\<close> on a POST request. After the commit the queued files are deleted; an
  exception there, or in the clean-up after a rollback, would leave the view.
\<close>

definition admin_edit :: "env \<Rightarrow> nat \<Rightarrow> request \<Rightarrow> world \<Rightarrow> response \<times> world" where
  "admin_edit ev eid req w =
     (case fetch_entry (w_db w) eid of
        None \<Rightarrow> (\<lparr>flashes = [], page = Not_found\<rparr>, w)
      | Some _ \<Rightarrow>
          (case normalized_entry_date (today ev) (multi_get (form req) ''entry_date'') of
             Inl _ \<Rightarrow>
               (\<lparr>flashes = [(''Entry date must be in YYYY-MM-DD format.'', ''error'')],
                 page = Redirect_admin_edit eid\<rparr>, w)
           | Inr edate \<Rightarrow>
               (case edit_attempt ev eid edate req w of
                  (Inr _, st) \<Rightarrow>
                    (case delete_images (files_to_remove_after_commit st) (disk st) of
                       (Inl _, disk') \<Rightarrow>
                         (\<lparr>flashes = [], page = Internal_error\<rparr>,
                          \<lparr>w_db = conn st, w_disk = disk'\<rparr>)
                     | (Inr _, disk') \<Rightarrow>
                         (\<lparr>flashes = [(''Entry updated.'', ''success'')],
                           page = Redirect_admin_edit eid\<rparr>,
                          \<lparr>w_db = conn st, w_disk = disk'\<rparr>))
                | (Inl e, st) \<Rightarrow>
                    (case delete_images (saved_files st) (disk st) of
                       (Inl _, disk') \<Rightarrow>
                         (\<lparr>flashes = [], page = Internal_error\<rparr>,
                          \<lparr>w_db = w_db w, w_disk = disk'\<rparr>)
                     | (Inr _, disk') \<Rightarrow>
                         (\<lparr>flashes =
                             [(case e of
                                 ValueError msg \<Rightarrow> msg
                               | UnexpectedError \<Rightarrow>
                                   ''Could not update entry. Please try again.'',
                               ''error'')],
                           page = Redirect_admin_edit eid\<rparr>,
                          \<lparr>w_db = w_db w, w_disk = disk'\<rparr>)))))"

subsection \<open>Delete\<close>

definition admin_delete :: "nat \<Rightarrow> world \<Rightarrow> response \<times> world" where
  "admin_delete eid w =
     (case filter (\<lambda>e. e_id e = eid) (entries (w_db w)) of
        [] \<Rightarrow> (\<lparr>flashes = [], page = Not_found\<rparr>, w)
      | _ # _ \<Rightarrow>
          (let asset_rows = map file_path (filter (\<lambda>a. entry_id a = eid) (assets (w_db w)));
               db' = delete_entry eid (w_db w)
           in (case delete_images asset_rows (w_disk w) of
                 (Inl _, disk') \<Rightarrow>
                   (\<lparr>flashes = [], page = Internal_error\<rparr>, \<lparr>w_db = db', w_disk = disk'\<rparr>)
               | (Inr _, disk') \<Rightarrow>
                   (\<lparr>flashes = [(''Entry deleted.'', ''success'')],
                     page = Redirect_admin_dashboard\<rparr>,
                    \<lparr>w_db = db', w_disk = disk'\<rparr>))))"

subsection \<open>Constraints of the schema\<close>

text \<open>
  Modelled from the spec: \<open>schema.sql\<close> is not among the sources. The spec gives both
  tables a unique \<open>id\<close> and a "foreign key \<open>assets.entry_id \<rightarrow> entries.id\<close>"; the
  connection is opened with \<open>PRAGMA foreign_keys = ON\<close>.
\<close>

definition wf_db :: "database \<Rightarrow> bool" where
  "wf_db db \<longleftrightarrow>
     distinct (map e_id (entries db)) \<and> distinct (map a_id (assets db)) \<and>
     (\<forall>a \<in> set (assets db). entry_id a \<in> set (map e_id (entries db)))"

text \<open>The notebook rows and the photo rows of an entry, in table order.\<close>

definition notebook_rows :: "database \<Rightarrow> nat \<Rightarrow> asset list" where
  "notebook_rows db eid = filter (\<lambda>a. entry_id a = eid \<and> kind a = notebook_page) (assets db)"

definition photo_rows :: "database \<Rightarrow> nat \<Rightarrow> asset list" where
  "photo_rows db eid = filter (\<lambda>a. entry_id a = eid \<and> kind a = photo) (assets db)"

text \<open>At most one notebook page for every entry.\<close>

definition one_notebook :: "database \<Rightarrow> bool" where
  "one_notebook db \<longleftrightarrow> (\<forall>eid. length (notebook_rows db eid) \<le> 1)"

subsection \<open>The steps of an attempt\<close>

text \<open>
  The files a request uploads, each with the role it is saved under, and what it means
  for them to be new to a disk: no path one of them would be saved at exists yet
  (\<open>uuid4\<close> makes a collision "effectively impossible", in the spec's words).
\<close>

definition create_uploads :: "request \<Rightarrow> (string \<times> file_storage) list" where
  "create_uploads req =
     (case multi_get (files req) ''notebook_page'' of
        None \<Rightarrow> []
      | Some f \<Rightarrow> [(''notebook'', f)])
     @ map (\<lambda>f. (''photo'', f)) (getlist (files req) ''photos'')"

definition edit_uploads :: "request \<Rightarrow> (string \<times> file_storage) list" where
  "edit_uploads req =
     (case multi_get (files req) ''notebook_page'' of
        None \<Rightarrow> []
      | Some f \<Rightarrow> [(''notebook'', f)])
     @ map (\<lambda>f. (''photo'', f)) (getlist (files req) ''new_photos'')"

definition fresh_uploads :: "string \<Rightarrow> (string \<times> file_storage) list \<Rightarrow> fs \<Rightarrow> bool" where
  "fresh_uploads edate ups dk =
     list_all (\<lambda>(role, f).
        case strptime_ymd edate of
          Inl _ \<Rightarrow> True
        | Inr d \<Rightarrow> dk (stored_path d role f) = None) ups"

text \<open>
  Every statement of the two \<open>try\<close> blocks that changes the attempt's state is one of
  the steps below, for the entry \<open>eid\<close>, the date \<open>edate\<close> and the uploads \<open>ups\<close>. The
  premises on the state are what holds where the views take the step: the entry row
  exists when an asset is inserted, a notebook row is inserted only when the entry has
  none, and a row updated by id alone is the entry's own.
\<close>

inductive attempt_step ::
  "nat \<Rightarrow> string \<Rightarrow> (string \<times> file_storage) list \<Rightarrow> attempt \<Rightarrow> attempt \<Rightarrow> bool"
  for eid :: nat and edate :: string and ups :: "(string \<times> file_storage) list" where
  entry_inserted:
    "insert_entry edate ttl body ts ts' (conn st) = (eid, db1) \<Longrightarrow>
     attempt_step eid edate ups st (st\<lparr>conn := db1\<rparr>)"
| entry_updated:
    "attempt_step eid edate ups st
       (st\<lparr>conn := (conn st)\<lparr>entries :=
            update_where (\<lambda>e. e_id e = eid)
              (\<lambda>e. e\<lparr>entry_date := edate, title := ttl, body_markdown := body,
                     updated_at := ts\<rparr>)
              (entries (conn st))\<rparr>\<rparr>)"
| save_failed:
    "(role, f) \<in> set ups \<Longrightarrow>
     save_uploaded_image f edate role (disk st) = (Inl e, dk') \<Longrightarrow>
     attempt_step eid edate ups st (st\<lparr>disk := dk'\<rparr>)"
| photo_saved:
    "(''photo'', f) \<in> set ups \<Longrightarrow>
     save_uploaded_image f edate ''photo'' (disk st) = (Inr p, dk') \<Longrightarrow>
     eid \<in> set (map e_id (entries (conn st))) \<Longrightarrow>
     attempt_step eid edate ups st
       (st\<lparr>disk := dk', saved_files := saved_files st @ [p],
           conn := insert_asset eid photo p cap ix ts (conn st)\<rparr>)"
| notebook_saved:
    "(''notebook'', f) \<in> set ups \<Longrightarrow>
     save_uploaded_image f edate ''notebook'' (disk st) = (Inr p, dk') \<Longrightarrow>
     eid \<in> set (map e_id (entries (conn st))) \<Longrightarrow>
     notebook_rows (conn st) eid = [] \<Longrightarrow>
     attempt_step eid edate ups st
       (st\<lparr>disk := dk', saved_files := saved_files st @ [p],
           conn := insert_asset eid notebook_page p cap 0 ts (conn st)\<rparr>)"
| notebook_replaced:
    "(''notebook'', f) \<in> set ups \<Longrightarrow>
     save_uploaded_image f edate ''notebook'' (disk st) = (Inr p, dk') \<Longrightarrow>
     \<forall>a \<in> set (assets (conn st)). a_id a = nid \<longrightarrow> entry_id a = eid \<Longrightarrow>
     attempt_step eid edate ups st
       (st\<lparr>disk := dk', saved_files := saved_files st @ [p],
           conn := (conn st)\<lparr>assets :=
             update_where (\<lambda>a. a_id a = nid)
               (\<lambda>a. a\<lparr>file_path := p, caption := cap, a_created_at := ts\<rparr>)
               (assets (conn st))\<rparr>,
           files_to_remove_after_commit := files_to_remove_after_commit st @ [old_path]\<rparr>)"
| notebook_captioned:
    "\<forall>a \<in> set (assets (conn st)). a_id a = nid \<longrightarrow> entry_id a = eid \<Longrightarrow>
     attempt_step eid edate ups st
       (st\<lparr>conn := (conn st)\<lparr>assets :=
            update_where (\<lambda>a. a_id a = nid) (\<lambda>a. a\<lparr>caption := cap\<rparr>)
              (assets (conn st))\<rparr>\<rparr>)"
| photo_deleted:
    "attempt_step eid edate ups st
       (st\<lparr>conn := (conn st)\<lparr>assets :=
            delete_where (\<lambda>a. a_id a = pid \<and> entry_id a = eid \<and> kind a = photo)
              (assets (conn st))\<rparr>,
           files_to_remove_after_commit := files_to_remove_after_commit st @ [old_path]\<rparr>)"
| photo_updated:
    "attempt_step eid edate ups st
       (st\<lparr>conn := (conn st)\<lparr>assets :=
            update_where (\<lambda>a. a_id a = pid \<and> entry_id a = eid \<and> kind a = photo)
              (\<lambda>a. a\<lparr>caption := cap, sort_index := ix\<rparr>)
              (assets (conn st))\<rparr>\<rparr>)"

text \<open>Zero or more steps.\<close>

definition attempt_steps ::
  "nat \<Rightarrow> string \<Rightarrow> (string \<times> file_storage) list \<Rightarrow> attempt \<Rightarrow> attempt \<Rightarrow> bool" where
  "attempt_steps eid edate ups = rtranclp (attempt_step eid edate ups)"

text \<open>Every path in \<open>saved_files\<close> is a regular file on the attempt's disk.\<close>

definition saved_ok :: "attempt \<Rightarrow> bool" where
  "saved_ok st \<longleftrightarrow> (\<forall>q \<in> set (saved_files st). q \<noteq> [] \<and> is_file (disk st) q)"

subsection \<open>The states the application reaches\<close>

text \<open>
  The application starts with empty tables (and any upload directory); every write is
  one of the three views, and \<open>date.today()\<close> is a date.
\<close>

inductive reachable :: "world \<Rightarrow> bool" where
  reachable_init: "reachable \<lparr>w_db = \<lparr>entries = [], assets = []\<rparr>, w_disk = d\<rparr>"
| reachable_new:
    "reachable w \<Longrightarrow> valid_date (today ev) \<Longrightarrow> reachable (snd (admin_new ev req w))"
| reachable_edit:
    "reachable w \<Longrightarrow> valid_date (today ev) \<Longrightarrow> reachable (snd (admin_edit ev eid req w))"
| reachable_delete: "reachable w \<Longrightarrow> reachable (snd (admin_delete eid w))"

section \<open>Example data\<close>

text \<open>Concrete requests and states, used to instantiate the theorems below.\<close>

definition one_file :: fs where
  "one_file =
     (\<lambda>p. if p = ''2024/03/05/photo-ab.jpg'' then Some (File ''data'')
          else if p = ''2024'' then Some Dir else None)"

definition many_entries :: "nat \<Rightarrow> database" where
  "many_entries n =
     \<lparr>entries = map (\<lambda>i. \<lparr>e_id = Suc i, entry_date = ''2024-03-05'', title = [],
                              body_markdown = [], created_at = [], updated_at = []\<rparr>) [0..<n],
      assets = []\<rparr>"

text \<open>An upload with the given file name and token whose write succeeds.\<close>

definition photo_upload :: "string \<Rightarrow> string \<Rightarrow> file_storage" where
  "photo_upload name token =
     \<lparr>filename = Some name, content = ''data'', uuid_hex = token, save_outcome = Saved\<rparr>"

text \<open>A request on 2024-03-05, and a world with empty tables and an empty disk.\<close>

definition march_5 :: env where
  "march_5 = \<lparr>today = \<lparr>year = 2024, month = 3, day = 5\<rparr>,
               utc_now_iso = ''2024-03-05T12:00:00+00:00''\<rparr>"

definition empty_world :: world where
  "empty_world = \<lparr>w_db = \<lparr>entries = [], assets = []\<rparr>, w_disk = Map.empty\<rparr>"

text \<open>A create request without a date, with a jpg photo and a bmp photo.\<close>

definition two_photos :: request where
  "two_photos =
     \<lparr>form = [],
      files = [(''photos'', photo_upload ''a.jpg'' ''t1''),
               (''photos'', photo_upload ''b.bmp'' ''t2'')]\<rparr>"

section \<open>Decimal digits and dates\<close>

lemma str_nat_lt10: "n < 10 \<Longrightarrow> str_nat n = [digit_char n]"
  by (simp add: str_nat.simps)

lemma str_nat_ge10: "10 \<le> n \<Longrightarrow> str_nat n = str_nat (n div 10) @ [digit_char (n mod 10)]"
  by (subst str_nat.simps) simp

lemma str_nat_2:
  "10 \<le> n \<Longrightarrow> n < 100 \<Longrightarrow> str_nat n = [digit_char (n div 10), digit_char (n mod 10)]"
  by (simp add: str_nat_ge10 str_nat_lt10)

lemma str_nat_3:
  "100 \<le> n \<Longrightarrow> n < 1000 \<Longrightarrow>
   str_nat n = [digit_char (n div 100), digit_char (n div 10 mod 10), digit_char (n mod 10)]"
  by (simp add: str_nat_ge10 [of n] str_nat_2 div_mult2_eq [symmetric])

lemma str_nat_4:
  "1000 \<le> n \<Longrightarrow> n < 10000 \<Longrightarrow>
   str_nat n = [digit_char (n div 1000), digit_char (n div 100 mod 10),
                digit_char (n div 10 mod 10), digit_char (n mod 10)]"
  by (simp add: str_nat_ge10 [of n] str_nat_3 div_mult2_eq [symmetric])

lemma digit_char_0: "digit_char 0 = CHR ''0''"
  by (simp add: digit_char_def char_of_eq_iff take_bit_eq_mod)

lemma replicate_3: "replicate 3 c = [c, c, c]"
  by (simp add: numeral_3_eq_3)

lemma replicate_2: "replicate 2 c = [c, c]"
  by (simp add: numeral_2_eq_2)

lemma zero_pad2: "n < 100 \<Longrightarrow> zero_pad 2 n = [digit_char (n div 10), digit_char (n mod 10)]"
proof (cases "n < 10")
  case True
  then show ?thesis by (simp add: zero_pad_def str_nat_lt10 digit_char_0)
next
  case False
  assume "n < 100"
  with False show ?thesis by (simp add: zero_pad_def str_nat_2)
qed

lemma zero_pad4:
  assumes "n < 10000"
  shows "zero_pad 4 n = [digit_char (n div 1000), digit_char (n div 100 mod 10),
                         digit_char (n div 10 mod 10), digit_char (n mod 10)]"
proof -
  consider "n < 10" | "10 \<le> n" "n < 100" | "100 \<le> n" "n < 1000" | "1000 \<le> n"
    by linarith
  then show ?thesis
  proof cases
    case 1
    then show ?thesis by (simp add: zero_pad_def str_nat_lt10 replicate_3 digit_char_0)
  next
    case 2
    then show ?thesis by (simp add: zero_pad_def str_nat_2 replicate_2 digit_char_0)
  next
    case 3
    then show ?thesis by (simp add: zero_pad_def str_nat_3 digit_char_0)
  next
    case 4
    with assms show ?thesis by (simp add: zero_pad_def str_nat_4)
  qed
qed

lemma of_char_digit_char: "k < 10 \<Longrightarrow> (of_char (digit_char k) :: nat) = 48 + k"
  by (simp add: digit_char_def)

lemma is_digit_digit_char: "k < 10 \<Longrightarrow> is_digit (digit_char k)"
  by (simp add: is_digit_def less_eq_char_def of_char_digit_char)

lemma digit_val_digit_char: "k < 10 \<Longrightarrow> digit_val (digit_char k) = k"
  by (simp add: digit_val_def of_char_digit_char)

lemma digit_char_eq_iff: "k < 10 \<Longrightarrow> (digit_char k = c) = (48 + k = (of_char c :: nat))"
  by (metis of_char_digit_char of_char_eq_iff)

lemma in_range_digit_char:
  "k < 10 \<Longrightarrow>
   in_range a b (digit_char k) = ((of_char a :: nat) \<le> 48 + k \<and> 48 + k \<le> (of_char b :: nat))"
  by (simp add: in_range_def less_eq_char_def of_char_digit_char)

lemma decimal_4:
  "1000 * (y div 1000) + 100 * (y div 100 mod 10) + 10 * (y div 10 mod 10) + y mod 10 = (y::nat)"
proof -
  have a: "y = 10 * (y div 10) + y mod 10" by simp
  have b: "y div 10 = 10 * (y div 100) + y div 10 mod 10"
    using div_mult_mod_eq [of "y div 10" 10] by (simp add: div_mult2_eq [symmetric])
  have c: "y div 100 = 10 * (y div 1000) + y div 100 mod 10"
    using div_mult_mod_eq [of "y div 100" 10] by (simp add: div_mult2_eq [symmetric])
  show ?thesis using a b c by linarith
qed

lemma int_str4:
  "int_str [a, b, c, d] = 1000 * digit_val a + 100 * digit_val b + 10 * digit_val c + digit_val d"
  by (simp add: int_str_def)

lemma int_str2: "int_str [a, b] = 10 * digit_val a + digit_val b"
  by (simp add: int_str_def)

lemma int_str1: "int_str [a] = digit_val a"
  by (simp add: int_str_def)

lemma alt_Y_iso:
  assumes "y < 10000"
  shows "alt_Y (zero_pad 4 y @ r) = [(y, r)]"
proof -
  have d: "y div 1000 < 10" "y div 100 mod 10 < 10" "y div 10 mod 10 < 10" "y mod 10 < 10"
    using assms by auto
  show ?thesis
    using d
    by (simp add: zero_pad4 assms alt_Y_def is_digit_digit_char int_str4 digit_val_digit_char
        decimal_4)
qed

lemma not_space_digit_char: "k < 10 \<Longrightarrow> \<not> is_space (digit_char k)"
  by (simp add: is_space_def of_char_digit_char)

lemma strip_digits2:
  "i < 10 \<Longrightarrow> k < 10 \<Longrightarrow> strip [digit_char i, digit_char k] = [digit_char i, digit_char k]"
  by (simp add: strip_def not_space_digit_char)

lemmas two_digit_simps =
  zero_pad2 two_chars_def one_char_def digit_char_eq_iff in_range_digit_char strip_digits2
  int_str2 int_str1 digit_val_digit_char of_char_digit_char

lemma alt_m_digits0:
  "k < 10 \<Longrightarrow> 1 \<le> k \<Longrightarrow> \<exists>ms. alt_m (digit_char 0 # digit_char k # r) = (k, r) # ms"
  by (simp add: alt_m_def two_digit_simps)

lemma alt_m_digits1:
  "k \<le> 2 \<Longrightarrow> \<exists>ms. alt_m (digit_char 1 # digit_char k # r) = (10 + k, r) # ms"
  by (simp add: alt_m_def two_digit_simps)

lemma zero_pad2_digits:
  "i < 10 \<Longrightarrow> k < 10 \<Longrightarrow> zero_pad 2 (10 * i + k) = [digit_char i, digit_char k]"
  by (simp add: zero_pad2)

lemma alt_m_iso:
  assumes "1 \<le> m" "m \<le> 12"
  shows "\<exists>ms. alt_m (zero_pad 2 m @ r) = (m, r) # ms"
proof (cases "m < 10")
  case True
  then show ?thesis
    using alt_m_digits0 [of m r] zero_pad2_digits [of 0 m] assms by simp
next
  case False
  define k where "k = m - 10"
  have k: "m = 10 * 1 + k" "k \<le> 2" using False assms by (simp_all add: k_def)
  show ?thesis
    unfolding k(1) using alt_m_digits1 [of k r] zero_pad2_digits [of 1 k] k(2) by simp
qed

lemma alt_d_digits0:
  "k < 10 \<Longrightarrow> 1 \<le> k \<Longrightarrow> \<exists>ds. alt_d [digit_char 0, digit_char k] = (k, []) # ds"
  by (simp add: alt_d_def two_digit_simps is_digit_digit_char)

lemma alt_d_digits1:
  "k < 10 \<Longrightarrow> \<exists>ds. alt_d [digit_char 1, digit_char k] = (10 + k, []) # ds"
  by (simp add: alt_d_def two_digit_simps is_digit_digit_char)

lemma alt_d_digits2:
  "k < 10 \<Longrightarrow> \<exists>ds. alt_d [digit_char 2, digit_char k] = (20 + k, []) # ds"
  by (simp add: alt_d_def two_digit_simps is_digit_digit_char)

lemma alt_d_digits3:
  "k \<le> 1 \<Longrightarrow> \<exists>ds. alt_d [digit_char 3, digit_char k] = (30 + k, []) # ds"
  by (simp add: alt_d_def two_digit_simps is_digit_digit_char)

lemma alt_d_iso:
  assumes "1 \<le> d" "d \<le> 31"
  shows "\<exists>ds. alt_d (zero_pad 2 d) = (d, []) # ds"
proof -
  consider "d < 10" | "10 \<le> d" "d < 20" | "20 \<le> d" "d < 30" | "30 \<le> d"
    by linarith
  then show ?thesis
  proof cases
    case 1
    then show ?thesis
      using alt_d_digits0 [of d] zero_pad2_digits [of 0 d] assms by simp
  next
    case 2
    define k where "k = d - 10"
    have k: "d = 10 * 1 + k" "k < 10" using 2 by (simp_all add: k_def)
    show ?thesis
      unfolding k(1) using alt_d_digits1 [of k] zero_pad2_digits [of 1 k] k(2) by simp
  next
    case 3
    define k where "k = d - 20"
    have k: "d = 10 * 2 + k" "k < 10" using 3 by (simp_all add: k_def)
    show ?thesis
      unfolding k(1) using alt_d_digits2 [of k] zero_pad2_digits [of 2 k] k(2) by simp
  next
    case 4
    define k where "k = d - 30"
    have k: "d = 10 * 3 + k" "k \<le> 1" using 4 assms by (simp_all add: k_def)
    show ?thesis
      unfolding k(1) using alt_d_digits3 [of k] zero_pad2_digits [of 3 k] k(2) by simp
  qed
qed

lemma valid_date_bounds:
  "valid_date d \<Longrightarrow>
   year d < 10000 \<and> 1 \<le> month d \<and> month d \<le> 12 \<and> 1 \<le> day d \<and> day d \<le> 31"
  by (auto simp: valid_date_def days_in_month_def split: if_splits)

lemma dash_simps: "dash (CHR ''-'' # r) = [r]" "dash [] = []"
  by (simp_all add: dash_def)

lemma regex_ymd_iso:
  assumes "valid_date d"
  shows "\<exists>rest. regex_ymd (isoformat d) = (year d, month d, day d, []) # rest"
proof -
  from valid_date_bounds [OF assms]
  have b: "year d < 10000" "1 \<le> month d" "month d \<le> 12" "1 \<le> day d" "day d \<le> 31"
    by auto
  obtain ms where ms:
    "alt_m (zero_pad 2 (month d) @ CHR ''-'' # zero_pad 2 (day d)) =
       (month d, CHR ''-'' # zero_pad 2 (day d)) # ms"
    using alt_m_iso [OF b(2,3)] by blast
  obtain ds where ds: "alt_d (zero_pad 2 (day d)) = (day d, []) # ds"
    using alt_d_iso [OF b(4,5)] by blast
  have y:
    "alt_Y (zero_pad 4 (year d) @ CHR ''-'' # zero_pad 2 (month d) @ CHR ''-'' # zero_pad 2 (day d))
       = [(year d, CHR ''-'' # zero_pad 2 (month d) @ CHR ''-'' # zero_pad 2 (day d))]"
    using alt_Y_iso [OF b(1)] by blast
  show ?thesis
    by (simp add: regex_ymd_def isoformat_def y ms ds dash_simps)
qed

lemma strptime_isoformat:
  assumes "valid_date d"
  shows "strptime_ymd (isoformat d) = Inr d"
proof -
  obtain rest where r: "regex_ymd (isoformat d) = (year d, month d, day d, []) # rest"
    using regex_ymd_iso [OF assms] by blast
  show ?thesis using assms by (simp add: strptime_ymd_def r valid_date_def)
qed

lemma strptime_valid: "strptime_ymd s = Inr d \<Longrightarrow> valid_date d"
  by (auto simp: strptime_ymd_def split: list.splits if_splits)

lemma iso_form_isoformat:
  assumes "valid_date d"
  shows "iso_form (isoformat d)"
proof -
  from valid_date_bounds [OF assms]
  have b: "year d < 10000" "month d < 100" "day d < 100" by auto
  have k: "year d div 1000 < 10" "year d div 100 mod 10 < 10" "year d div 10 mod 10 < 10"
    "year d mod 10 < 10" "month d div 10 < 10" "month d mod 10 < 10" "day d div 10 < 10"
    "day d mod 10 < 10"
    using b by auto
  show ?thesis
    using k by (simp add: iso_form_def isoformat_def zero_pad4 zero_pad2 b is_digit_digit_char)
qed

lemma isoformat_not_empty: "isoformat d \<noteq> []"
  by (simp add: isoformat_def)

lemma char_of_nat_eq: "n < 256 \<Longrightarrow> (char_of (n::nat) = c) = (n = of_char c)"
  by (auto simp: char_of_eq_iff take_bit_eq_mod)

lemma strptime_empty: "strptime_ymd [] \<noteq> Inr d"
  by (simp add: strptime_ymd_def regex_ymd_def alt_Y_def)

lemmas date_eval =
  normalized_entry_date_def strptime_ymd_def regex_ymd_def alt_Y_def alt_m_def alt_d_def
  two_chars_def one_char_def dash_def is_digit_def in_range_def int_str_def digit_val_def
  strip_def is_space_def valid_date_def days_in_month_def is_leap_def isoformat_def
  zero_pad4 zero_pad2 digit_char_def char_of_nat_eq

lemma normalized_valid:
  assumes "valid_date td" "normalized_entry_date td raw = Inr out"
  shows "\<exists>d. valid_date d \<and> out = isoformat d"
proof (cases raw)
  case None
  with assms show ?thesis by (auto simp: normalized_entry_date_def)
next
  case (Some s)
  show ?thesis
  proof (cases "s = []")
    case True
    with Some assms show ?thesis by (auto simp: normalized_entry_date_def)
  next
    case False
    with Some assms(2) obtain d where d: "strptime_ymd s = Inr d" "out = isoformat d"
      by (cases "strptime_ymd s") (auto simp: normalized_entry_date_def)
    then show ?thesis using strptime_valid by blast
  qed
qed

text \<open>
  C10. Date normalisation is canonicalising. An absent or empty date gives today's ISO
  date. Every string \<open>strptime\<close> accepts gives the ISO form of the date it parses to,
  which has the shape \<open>YYYY-MM-DD\<close> and parses back to the same date; for example
  \<open>2024-3-5\<close> gives \<open>2024-03-05\<close>. So whatever the function returns has that shape
  and is left unchanged by normalising it again.
\<close>

theorem normalized_entry_date_canonical:
  "normalized_entry_date td None = Inr (isoformat td) \<and>
   normalized_entry_date td (Some []) = Inr (isoformat td) \<and>
   (\<forall>s d. strptime_ymd s = Inr d \<longrightarrow>
      normalized_entry_date td (Some s) = Inr (isoformat d) \<and>
      iso_form (isoformat d) \<and> strptime_ymd (isoformat d) = Inr d) \<and>
   normalized_entry_date td (Some ''2024-3-5'') = Inr ''2024-03-05'' \<and>
   (valid_date td \<longrightarrow>
      (\<forall>raw out. normalized_entry_date td raw = Inr out \<longrightarrow>
         iso_form out \<and> normalized_entry_date td (Some out) = Inr out))"
proof (intro conjI allI impI)
  show "normalized_entry_date td None = Inr (isoformat td)"
    by (simp add: normalized_entry_date_def)
  show "normalized_entry_date td (Some []) = Inr (isoformat td)"
    by (simp add: normalized_entry_date_def)
  show "normalized_entry_date td (Some ''2024-3-5'') = Inr ''2024-03-05''"
    by (simp add: date_eval)
next
  fix s d
  assume p: "strptime_ymd s = Inr d"
  then have "s \<noteq> []" using strptime_empty by blast
  with p show "normalized_entry_date td (Some s) = Inr (isoformat d)"
    by (simp add: normalized_entry_date_def)
  from p have v: "valid_date d" by (rule strptime_valid)
  from v show "iso_form (isoformat d)" by (rule iso_form_isoformat)
  from v show "strptime_ymd (isoformat d) = Inr d" by (rule strptime_isoformat)
next
  fix raw out
  assume td: "valid_date td" and r: "normalized_entry_date td raw = Inr out"
  from normalized_valid [OF td r] obtain d where d: "valid_date d" "out = isoformat d"
    by blast
  from d show "iso_form out" by (simp add: iso_form_isoformat)
  from d show "normalized_entry_date td (Some out) = Inr out"
    by (simp add: normalized_entry_date_def isoformat_not_empty strptime_isoformat)
qed

theorem normalized_entry_date_canonical_witness:
  "strptime_ymd ''2024-10-7'' = Inr \<lparr>year = 2024, month = 10, day = 7\<rparr> \<and>
   normalized_entry_date \<lparr>year = 2025, month = 11, day = 2\<rparr> (Some ''2024-10-7'')
     = Inr ''2024-10-07'' \<and>
   iso_form ''2024-10-07'' \<and>
   valid_date \<lparr>year = 2025, month = 11, day = 2\<rparr> \<and>
   normalized_entry_date \<lparr>year = 2025, month = 11, day = 2\<rparr> (Some []) = Inr ''2025-11-02'' \<and>
   normalized_entry_date \<lparr>year = 2025, month = 11, day = 2\<rparr> (Some ''2025-11-02'')
     = Inr ''2025-11-02''"
proof -
  let ?td = "\<lparr>year = 2025, month = 11, day = 2\<rparr>"
  have p: "strptime_ymd ''2024-10-7'' = Inr \<lparr>year = 2024, month = 10, day = 7\<rparr>"
    by (simp add: date_eval)
  have i: "isoformat \<lparr>year = 2024, month = 10, day = 7\<rparr> = ''2024-10-07''"
    by (simp add: date_eval)
  have v: "valid_date ?td" by (simp add: date_eval)
  have t: "isoformat ?td = ''2025-11-02''" by (simp add: date_eval)
  note main = normalized_entry_date_canonical [of ?td]
  from main have a:
    "normalized_entry_date ?td (Some ''2024-10-7'') =
       Inr (isoformat \<lparr>year = 2024, month = 10, day = 7\<rparr>) \<and>
     iso_form (isoformat \<lparr>year = 2024, month = 10, day = 7\<rparr>)"
    using p by blast
  from main have b: "normalized_entry_date ?td (Some []) = Inr (isoformat ?td)" by blast
  from main v b have c:
    "normalized_entry_date ?td (Some (isoformat ?td)) = Inr (isoformat ?td)" by blast
  show ?thesis using p a b c v by (simp add: i t)
qed

section \<open>The image store\<close>

lemma is_file_iff: "is_file dk p \<longleftrightarrow> (\<exists>c. dk p = Some (File c))"
  by (auto simp: is_file_def split: option.splits node.splits)

lemma path_exists_iff: "path_exists dk p \<longleftrightarrow> dk p \<noteq> None"
  by (auto simp: path_exists_def split: option.splits)

lemma is_file_exists: "is_file dk p \<Longrightarrow> path_exists dk p"
  by (auto simp: is_file_iff path_exists_iff)

lemma delete_image_eq:
  "delete_image p dk = Inr (if p \<noteq> [] \<and> is_file dk p then dk(p := None) else dk)"
  by (auto simp: delete_image_def unlink_def is_file_exists)


text \<open>
  C8. Deleting an image never raises: \<open>delete_image\<close> always returns a disk. It
  changes nothing for an empty path, for a path that is missing and for a directory;
  it removes the path when it is a regular file, and only then; no other path is
  touched; and deleting again changes nothing more.
\<close>

theorem delete_image_never_raises:
  "(\<exists>disk'. delete_image p dk = Inr disk') \<and>
   delete_image [] dk = Inr dk \<and>
   (dk p = None \<longrightarrow> delete_image p dk = Inr dk) \<and>
   (dk p = Some Dir \<longrightarrow> delete_image p dk = Inr dk) \<and>
   (\<forall>c. p \<noteq> [] \<and> dk p = Some (File c) \<longrightarrow> delete_image p dk = Inr (dk(p := None))) \<and>
   (\<forall>disk'. delete_image p dk = Inr disk' \<longrightarrow>
      delete_image p disk' = Inr disk' \<and>
      (\<forall>q. q \<noteq> p \<longrightarrow> disk' q = dk q) \<and>
      (disk' \<noteq> dk \<longrightarrow> p \<noteq> [] \<and> is_file dk p \<and> disk' p = None))"
  by (auto simp: delete_image_eq is_file_iff)


theorem delete_image_never_raises_witness:
  "delete_image ''2024/03/05/photo-ab.jpg'' one_file = Inr (one_file(''2024/03/05/photo-ab.jpg'' := None)) \<and>
   delete_image ''2024/03/05/photo-ab.jpg'' (one_file(''2024/03/05/photo-ab.jpg'' := None))
     = Inr (one_file(''2024/03/05/photo-ab.jpg'' := None)) \<and>
   delete_image ''2024'' one_file = Inr one_file \<and>
   delete_image ''missing.png'' one_file = Inr one_file"
proof -
  have f: "''2024/03/05/photo-ab.jpg'' \<noteq> [] \<and> one_file ''2024/03/05/photo-ab.jpg'' = Some (File ''data'')"
    by (simp add: one_file_def)
  have d: "one_file ''2024'' = Some Dir" by (simp add: one_file_def)
  have n: "one_file ''missing.png'' = None" by (simp add: one_file_def)
  have a: "delete_image ''2024/03/05/photo-ab.jpg'' one_file = Inr (one_file(''2024/03/05/photo-ab.jpg'' := None))"
    using delete_image_never_raises [of "''2024/03/05/photo-ab.jpg''" one_file] f by blast
  have b: "delete_image ''2024/03/05/photo-ab.jpg'' (one_file(''2024/03/05/photo-ab.jpg'' := None))
     = Inr (one_file(''2024/03/05/photo-ab.jpg'' := None))"
    using delete_image_never_raises [of "''2024/03/05/photo-ab.jpg''" one_file] a by blast
  have c: "delete_image ''2024'' one_file = Inr one_file"
    using delete_image_never_raises [of "''2024''" one_file] d by blast
  have e: "delete_image ''missing.png'' one_file = Inr one_file"
    using delete_image_never_raises [of "''missing.png''" one_file] n by blast
  show ?thesis using a b c e by blast
qed

section \<open>Pagination\<close>

lemma ceil_div:
  fixes a b :: int
  assumes "0 < b"
  shows "\<lceil>real_of_int a / real_of_int b\<rceil> = (a + b - 1) div b"
proof -
  have "\<lceil>real_of_int a / real_of_int b\<rceil> = - \<lfloor>real_of_int (- a) / real_of_int b\<rfloor>"
    by (simp add: ceiling_def)
  also have "\<dots> = - ((- a) div b)"
    by (simp only: floor_divide_of_int_eq)
  also have "\<dots> = (if a mod b = 0 then a div b else a div b + 1)"
    using assms by (simp add: zdiv_zminus1_eq_if)
  also have "\<dots> = (a + b - 1) div b"
  proof (cases "a mod b = 0")
    case True
    have "a = b * (a div b)" using True by (metis add.right_neutral mult_div_mod_eq)
    then have "a + b - 1 = (b - 1) + b * (a div b)" by simp
    then have "(a + b - 1) div b = a div b + (b - 1) div b"
      using assms by (metis div_mult_self2 less_irrefl)
    then show ?thesis using True assms by simp
  next
    case False
    have "0 \<le> a mod b" "a mod b < b" using assms by simp_all
    with False have r: "0 < a mod b" "a mod b < b" by linarith+
    have "a + b - 1 = (a mod b - 1) + b * (a div b + 1)"
      by (simp add: algebra_simps)
    then have "(a + b - 1) div b = (a div b + 1) + (a mod b - 1) div b"
      using assms by (metis div_mult_self2 less_irrefl)
    then show ?thesis using False r by simp
  qed
  finally show ?thesis .
qed

lemma entries_desc_sorted: "sorted_wrt newer (entries_desc db)"
proof -
  have "sorted (map (\<lambda>e. (entry_date e, e_id e)) (sort_key (\<lambda>e. (entry_date e, e_id e)) (entries db)))"
    by (rule sorted_sort_key)
  then have "sorted_wrt (\<lambda>a b. (entry_date a, e_id a) \<le> (entry_date b, e_id b))
      (sort_key (\<lambda>e. (entry_date e, e_id e)) (entries db))"
    by (simp add: sorted_map)
  then have "sorted_wrt (\<lambda>a b. (entry_date b, e_id b) \<le> (entry_date a, e_id a)) (entries_desc db)"
    by (simp add: entries_desc_def sorted_wrt_rev)
  then show ?thesis
    by (rule sorted_wrt_mono_rel [rotated]) (auto simp: newer_def less_eq_prod_def)
qed

lemma entries_desc_mset: "mset (entries_desc db) = mset (entries db)"
  by (simp add: entries_desc_def)

lemma entries_desc_length: "length (entries_desc db) = length (entries db)"
  by (simp add: entries_desc_def)


lemma fetch_entries_eq:
  assumes "0 < per_page" "entries db \<noteq> []"
  shows "fetch_entries pg per_page db =
     Inr (map (assemble db)
            (take (nat per_page)
               (drop (nat ((max 1 (min pg ((int (length (entries db)) + per_page - 1) div per_page)) - 1)
                        * per_page))
                  (entries_desc db))),
          (int (length (entries db)) + per_page - 1) div per_page)"
  using assms by (simp add: fetch_entries_def Let_def limit_offset_def)

lemma total_pages_pos:
  fixes n per_page :: int
  assumes "0 < per_page" "0 < n"
  shows "1 \<le> (n + per_page - 1) div per_page"
proof -
  have "per_page \<le> n + per_page - 1" using assms by simp
  then have "per_page div per_page \<le> (n + per_page - 1) div per_page"
    using assms(1) by (rule zdiv_mono1)
  then show ?thesis using assms(1) by simp
qed

text \<open>
  C7. For \<open>per_page > 0\<close>: with no entries \<open>_fetch_entries\<close> returns the empty list
  (and 0 pages). Otherwise \<open>total_pages\<close> is the ceiling of \<open>total / per_page\<close>, the
  requested page is clamped into \<open>1..total_pages\<close>, and the rows returned are that
  page's slice of the entries ordered by entry date descending, then id descending
  (\<open>entries_desc\<close> is so ordered and is a permutation of the table). With 45 entries
  and \<open>per_page = 20\<close>, page 1 has 20 rows, page 3 has 5, and page 99 gives what page 3
  gives, with \<open>total_pages = 3\<close>.
\<close>

theorem fetch_entries_page:
  assumes "0 < per_page"
  shows
    "(entries db = [] \<longrightarrow> fetch_entries pg per_page db = Inr ([], 0)) \<and>
     (entries db \<noteq> [] \<longrightarrow>
        (\<exists>total_pages safe_page.
           total_pages = \<lceil>real (length (entries db)) / real_of_int per_page\<rceil> \<and>
           safe_page = max 1 (min pg total_pages) \<and>
           1 \<le> safe_page \<and> safe_page \<le> total_pages \<and>
           (1 \<le> pg \<and> pg \<le> total_pages \<longrightarrow> safe_page = pg) \<and>
           fetch_entries pg per_page db =
             Inr (map (assemble db)
                    (take (nat per_page)
                       (drop (nat ((safe_page - 1) * per_page)) (entries_desc db))),
                  total_pages))) \<and>
     sorted_wrt newer (entries_desc db) \<and>
     mset (entries_desc db) = mset (entries db) \<and>
     (length (entries db) = 45 \<and> per_page = 20 \<longrightarrow>
        (\<exists>page1 page3.
           fetch_entries 1 per_page db = Inr (page1, 3) \<and> length page1 = 20 \<and>
           fetch_entries 3 per_page db = Inr (page3, 3) \<and> length page3 = 5 \<and>
           fetch_entries 99 per_page db = Inr (page3, 3)))"
proof (intro conjI impI)
  show "entries db = [] \<Longrightarrow> fetch_entries pg per_page db = Inr ([], 0)"
    by (simp add: fetch_entries_def)
  show "sorted_wrt newer (entries_desc db)" by (rule entries_desc_sorted)
  show "mset (entries_desc db) = mset (entries db)" by (rule entries_desc_mset)
next
  assume ne: "entries db \<noteq> []"
  let ?tp = "(int (length (entries db)) + per_page - 1) div per_page"
  have c: "\<lceil>real (length (entries db)) / real_of_int per_page\<rceil> = ?tp"
    using ceil_div [OF assms, of "int (length (entries db))"] by simp
  have "0 < int (length (entries db))" using ne by simp
  then have tp: "1 \<le> ?tp" using assms by (simp add: total_pages_pos)
  show "\<exists>total_pages safe_page.
           total_pages = \<lceil>real (length (entries db)) / real_of_int per_page\<rceil> \<and>
           safe_page = max 1 (min pg total_pages) \<and>
           1 \<le> safe_page \<and> safe_page \<le> total_pages \<and>
           (1 \<le> pg \<and> pg \<le> total_pages \<longrightarrow> safe_page = pg) \<and>
           fetch_entries pg per_page db =
             Inr (map (assemble db)
                    (take (nat per_page)
                       (drop (nat ((safe_page - 1) * per_page)) (entries_desc db))),
                  total_pages)"
    unfolding c using tp fetch_entries_eq [OF assms ne, of pg] by auto
next
  assume a: "length (entries db) = 45 \<and> per_page = 20"
  then have ne: "entries db \<noteq> []" by auto
  have len: "length (entries_desc db) = 45" using a by (simp add: entries_desc_length)
  have pp: "per_page = 20" and n: "int (length (entries db)) = 45" using a by simp_all
  have e1: "fetch_entries 1 20 db =
      Inr (map (assemble db) (take 20 (entries_desc db)), 3)"
    using fetch_entries_eq [of 20 db 1] ne by (simp add: n)
  have e3: "fetch_entries 3 20 db =
      Inr (map (assemble db) (take 20 (drop 40 (entries_desc db))), 3)"
    using fetch_entries_eq [of 20 db 3] ne by (simp add: n)
  have e99: "fetch_entries 99 20 db =
      Inr (map (assemble db) (take 20 (drop 40 (entries_desc db))), 3)"
    using fetch_entries_eq [of 20 db 99] ne by (simp add: n)
  show "\<exists>page1 page3.
           fetch_entries 1 per_page db = Inr (page1, 3) \<and> length page1 = 20 \<and>
           fetch_entries 3 per_page db = Inr (page3, 3) \<and> length page3 = 5 \<and>
           fetch_entries 99 per_page db = Inr (page3, 3)"
    unfolding pp using e1 e3 e99 len by simp
qed

theorem fetch_entries_page_witness:
  "(0::int) < 20 \<and> entries (many_entries 45) \<noteq> [] \<and> length (entries (many_entries 45)) = 45 \<and>
   (\<exists>page1 page3.
      fetch_entries 1 20 (many_entries 45) = Inr (page1, 3) \<and> length page1 = 20 \<and>
      fetch_entries 3 20 (many_entries 45) = Inr (page3, 3) \<and> length page3 = 5 \<and>
      fetch_entries 99 20 (many_entries 45) = Inr (page3, 3)) \<and>
   fetch_entries 5 20 \<lparr>entries = [], assets = []\<rparr> = Inr ([], 0)"
proof -
  have p: "(0::int) < 20" by simp
  have l: "length (entries (many_entries 45)) = 45" by (simp add: many_entries_def)
  then have ne: "entries (many_entries 45) \<noteq> []" by auto
  note main = fetch_entries_page [OF p, of "many_entries 45"]
  from main l have "\<exists>page1 page3.
      fetch_entries 1 20 (many_entries 45) = Inr (page1, 3) \<and> length page1 = 20 \<and>
      fetch_entries 3 20 (many_entries 45) = Inr (page3, 3) \<and> length page3 = 5 \<and>
      fetch_entries 99 20 (many_entries 45) = Inr (page3, 3)"
    by blast
  moreover have "fetch_entries 5 20 \<lparr>entries = [], assets = []\<rparr> = Inr ([], 0)"
    using fetch_entries_page [OF p, of "\<lparr>entries = [], assets = []\<rparr>" 5] by simp
  ultimately show ?thesis using l ne by simp
qed

section \<open>Saving an uploaded image\<close>

lemma strip_chars_subset: "set (strip_chars p s) \<subseteq> set s"
proof -
  have "set (dropWhile p (rev (dropWhile p s))) \<subseteq> set (rev (dropWhile p s))"
    by (rule set_dropWhileD [THEN subsetI])
  also have "\<dots> \<subseteq> set s" using set_dropWhileD [of _ p s] by auto
  finally show ?thesis by (simp add: strip_chars_def)
qed

lemma strip_chars_hd:
  assumes "strip_chars p s \<noteq> []"
  shows "\<not> p (hd (strip_chars p s))"
proof -
  let ?t = "dropWhile p s"
  have eq: "?t = strip_chars p s @ rev (takeWhile p (rev ?t))"
    unfolding strip_chars_def
    by (metis rev_append rev_rev_ident takeWhile_dropWhile_id)
  from assms have "hd ?t = hd (strip_chars p s)"
    by (metis eq hd_append2)
  moreover have "?t \<noteq> []" using assms eq by (metis append_is_Nil_conv)
  then have "\<not> p (hd ?t)" by (rule hd_dropWhile)
  ultimately show ?thesis by simp
qed

lemma secure_filename_chars: "c \<in> set (secure_filename s) \<Longrightarrow> filename_char c"
  using strip_chars_subset by (fastforce simp: secure_filename_def Let_def)

lemma secure_filename_hd:
  "secure_filename s \<noteq> [] \<Longrightarrow> hd (secure_filename s) \<noteq> CHR ''.''"
  using strip_chars_hd [of "\<lambda>c. c = CHR ''.'' \<or> c = CHR ''_''"]
  by (auto simp: secure_filename_def Let_def)

lemma not_filename_char_slash: "\<not> filename_char CHR ''/''"
  by (simp add: filename_char_def in_range_def is_digit_def)

lemma secure_filename_no_slash: "CHR ''/'' \<notin> set (secure_filename s)"
  using secure_filename_chars not_filename_char_slash by blast

lemma path_name_no_slash:
  assumes "CHR ''/'' \<notin> set n"
  shows "path_name n = n"
proof -
  have t: "takeWhile (\<lambda>c. c \<noteq> CHR ''/'') (rev n) = rev n"
    by (rule takeWhile_eq_all_conv [THEN iffD2]) (use assms in auto)
  show ?thesis unfolding path_name_def t by simp
qed

lemma split_last_dot:
  assumes "CHR ''.'' \<in> set n"
  shows "\<exists>pre. n = pre @ CHR ''.'' # after_last_dot n"
proof -
  let ?P = "\<lambda>c. c \<noteq> CHR ''.''"
  have "dropWhile ?P (rev n) \<noteq> []" using assms by (simp add: dropWhile_eq_Nil_conv)
  moreover have "\<not> ?P (hd (dropWhile ?P (rev n)))"
    using calculation by (rule hd_dropWhile)
  ultimately obtain r where r: "dropWhile ?P (rev n) = CHR ''.'' # r"
    by (cases "dropWhile ?P (rev n)") auto
  have "rev n = takeWhile ?P (rev n) @ CHR ''.'' # r"
    using takeWhile_dropWhile_id [of ?P "rev n"] r by simp
  then have "n = rev r @ CHR ''.'' # rev (takeWhile ?P (rev n))"
    by (metis rev_append rev.simps(2) rev_rev_ident append.assoc append_Cons append_Nil)
  then show ?thesis unfolding after_last_dot_def by blast
qed

lemma allowed_ext_not_empty: "lower x \<in> set ALLOWED_IMAGE_EXTENSIONS \<Longrightarrow> x \<noteq> []"
  by (auto simp: ALLOWED_IMAGE_EXTENSIONS_def lower_def)

lemma path_suffix_secure:
  assumes "allowed_image (secure_filename s)"
  shows "path_suffix (secure_filename s) = CHR ''.'' # after_last_dot (secure_filename s)"
proof -
  let ?n = "secure_filename s"
  from assms have dot: "CHR ''.'' \<in> set ?n" and ext: "lower (after_last_dot ?n) \<in> set ALLOWED_IMAGE_EXTENSIONS"
    by (auto simp: allowed_image_def split: if_splits)
  from split_last_dot [OF dot] obtain pre where pre: "?n = pre @ CHR ''.'' # after_last_dot ?n" by blast
  have "?n \<noteq> []" using dot by auto
  then have "hd ?n \<noteq> CHR ''.''" by (rule secure_filename_hd)
  then have "pre \<noteq> []" using pre by (metis append_Nil list.sel(1))
  then have "length (after_last_dot ?n) + 1 < length ?n"
    by (subst (2) pre) (simp add: Suc_lessI)
  then show ?thesis
    using dot allowed_ext_not_empty [OF ext]
    by (simp add: path_suffix_def path_name_no_slash [OF secure_filename_no_slash] Let_def)
qed


lemma save_uploaded_image_cases:
  assumes "strptime_ymd edate = Inr d"
  shows "save_uploaded_image f edate role dk =
     (if sanitized_name f = [] then (Inl (ValueError ''Image filename is missing.''), dk)
      else if \<not> allowed_image (sanitized_name f)
      then (Inl (ValueError (''Unsupported image format for '' @ [CHR 0x27] @ sanitized_name f
                 @ [CHR 0x27] @ ''. Use jpg, png, webp, gif, heic, or heif.'')), dk)
      else (case mkdir_parents (zero_pad 4 (year d)) (zero_pad 2 (month d)) (zero_pad 2 (day d)) dk of
              Inl e \<Rightarrow> (Inl e, dk)
            | Inr disk1 \<Rightarrow>
                (case file_save f (stored_path d role f) disk1 of
                   (Inl e, disk2) \<Rightarrow> (Inl e, disk2)
                 | (Inr _, disk2) \<Rightarrow> (Inr (stored_path d role f), disk2))))"
  using assms unfolding save_uploaded_image_def stored_path_def Let_def by simp

lemma mkdir_parents_error: "mkdir_parents y m d dk = Inl e \<Longrightarrow> e = UnexpectedError"
  by (auto simp: mkdir_parents_def Let_def split: if_splits)

lemma file_save_error: "file_save f p dk = (Inl e, dk') \<Longrightarrow> e = UnexpectedError"
  by (auto simp: file_save_def split: if_splits save_outcome.splits option.splits)

lemma file_save_ok: "file_save f p dk = (Inr u, dk') \<Longrightarrow> dk' = dk(p \<mapsto> File (content f))"
  by (auto simp: file_save_def split: if_splits save_outcome.splits option.splits)

lemma stored_path_allowed:
  assumes "allowed_image (sanitized_name f)"
  shows "stored_path d role f =
     zero_pad 4 (year d) @ ''/'' @ zero_pad 2 (month d) @ ''/'' @ zero_pad 2 (day d) @ ''/'' @
     role @ ''-'' @ uuid_hex f @ ''.'' @ lower (after_last_dot (sanitized_name f))"
proof -
  have "path_suffix (sanitized_name f) = CHR ''.'' # after_last_dot (sanitized_name f)"
    using assms unfolding sanitized_name_def by (rule path_suffix_secure)
  moreover have "lower_char CHR ''.'' = CHR ''.''" by (simp add: lower_char_def)
  ultimately show ?thesis by (simp add: stored_path_def lower_def)
qed

lemma save_uploaded_image_value_error:
  assumes "strptime_ymd edate = Inr d"
  shows "(\<exists>msg. fst (save_uploaded_image f edate role dk) = Inl (ValueError msg)) \<longleftrightarrow>
         sanitized_name f = [] \<or> \<not> allowed_image (sanitized_name f)"
proof (cases "sanitized_name f = [] \<or> \<not> allowed_image (sanitized_name f)")
  case True
  then show ?thesis by (auto simp: save_uploaded_image_cases [OF assms])
next
  case False
  have "fst (save_uploaded_image f edate role dk) \<noteq> Inl (ValueError msg)" for msg
    using False mkdir_parents_error file_save_error
    by (fastforce simp: save_uploaded_image_cases [OF assms] split: sum.splits prod.splits)
  with False show ?thesis by blast
qed

lemma save_uploaded_image_ok:
  assumes "strptime_ymd edate = Inr d" "save_uploaded_image f edate role dk = (Inr p, dk')"
  shows "p = stored_path d role f \<and> allowed_image (sanitized_name f) \<and> sanitized_name f \<noteq> [] \<and>
         dk' p = Some (File (content f)) \<and>
         (\<exists>disk1. mkdir_parents (zero_pad 4 (year d)) (zero_pad 2 (month d)) (zero_pad 2 (day d)) dk = Inr disk1
            \<and> dk' = disk1(p \<mapsto> File (content f)))"
  using assms(2) file_save_ok
  by (fastforce simp: save_uploaded_image_cases [OF assms(1)] split: if_splits sum.splits prod.splits)


lemma mkdir_parents_ok:
  assumes "\<forall>q \<in> set (date_dirs d). \<not> is_file dk q"
  shows "mkdir_parents (zero_pad 4 (year d)) (zero_pad 2 (month d)) (zero_pad 2 (day d)) dk =
     Inr (\<lambda>p. if p \<in> set (date_dirs d) then Some Dir else dk p)"
  using assms by (simp add: mkdir_parents_def date_dirs_def Let_def)

lemma stored_path_not_dir: "stored_path d role f \<notin> set (date_dirs d)"
  by (simp add: stored_path_def date_dirs_def)

lemma save_uploaded_image_success:
  assumes "strptime_ymd edate = Inr d" "sanitized_name f \<noteq> []" "allowed_image (sanitized_name f)"
    "save_outcome f = Saved" "\<forall>q \<in> set (date_dirs d). \<not> is_file dk q"
    "dk (stored_path d role f) \<noteq> Some Dir"
  shows "save_uploaded_image f edate role dk =
     (Inr (stored_path d role f),
      (\<lambda>p. if p \<in> set (date_dirs d) then Some Dir else dk p)
        (stored_path d role f \<mapsto> File (content f)))"
  using assms(2-4,6) stored_path_not_dir [of d role f]
  by (simp add: save_uploaded_image_cases [OF assms(1)] mkdir_parents_ok [OF assms(5)]
      file_save_def)

lemmas name_eval =
  sanitized_name_def secure_filename_def nfkd_ascii_def filename_char_def strip_chars_def
  in_range_def is_digit_def is_space_def allowed_image_def after_last_dot_def lower_def
  lower_char_def ALLOWED_IMAGE_EXTENSIONS_def path_suffix_def path_name_def char_of_nat_eq

lemma strptime_example: "strptime_ymd ''2024-03-05'' = Inr \<lparr>year = 2024, month = 3, day = 5\<rparr>"
  by (simp add: date_eval)

text \<open>
  C6 (as amended). Given an entry date that \<open>strptime\<close> accepts (the views pass a
  normalised date), \<open>_save_uploaded_image\<close> fails with a \<open>ValueError\<close> exactly when
  the file name as sanitised by \<open>secure_filename\<close> is empty or the text after its last
  dot, lower-cased, is not one of jpg, jpeg, png, webp, gif, heic, heif. When it returns
  a path, the path is \<open>YYYY/MM/DD/<role>-<token>.<ext>\<close> with the directory taken from
  the date, \<open>ext\<close> the lower-cased extension of the sanitised name, and the file at that
  path holds the upload's content. It does return one when the name passes, the write
  succeeds, no directory of the date exists as a file and the destination is not a
  directory.
\<close>

theorem save_uploaded_image_result:
  assumes "strptime_ymd edate = Inr d"
  shows
    "((\<exists>msg. fst (save_uploaded_image f edate role dk) = Inl (ValueError msg)) \<longleftrightarrow>
        sanitized_name f = [] \<or> \<not> allowed_image (sanitized_name f)) \<and>
     (\<forall>p. fst (save_uploaded_image f edate role dk) = Inr p \<longrightarrow>
        p = zero_pad 4 (year d) @ ''/'' @ zero_pad 2 (month d) @ ''/'' @ zero_pad 2 (day d) @ ''/''
              @ role @ ''-'' @ uuid_hex f @ ''.'' @ lower (after_last_dot (sanitized_name f)) \<and>
        lower (after_last_dot (sanitized_name f)) \<in> set ALLOWED_IMAGE_EXTENSIONS \<and>
        snd (save_uploaded_image f edate role dk) p = Some (File (content f))) \<and>
     (sanitized_name f \<noteq> [] \<and> allowed_image (sanitized_name f) \<and> save_outcome f = Saved \<and>
      (\<forall>q \<in> set (date_dirs d). \<not> is_file dk q) \<and> dk (stored_path d role f) \<noteq> Some Dir \<longrightarrow>
        fst (save_uploaded_image f edate role dk) = Inr (stored_path d role f))"
proof (intro conjI allI impI)
  show "(\<exists>msg. fst (save_uploaded_image f edate role dk) = Inl (ValueError msg)) \<longleftrightarrow>
        sanitized_name f = [] \<or> \<not> allowed_image (sanitized_name f)"
    by (rule save_uploaded_image_value_error [OF assms])
next
  fix p
  assume "fst (save_uploaded_image f edate role dk) = Inr p"
  then obtain dk' where r: "save_uploaded_image f edate role dk = (Inr p, dk')"
    by (cases "save_uploaded_image f edate role dk") auto
  from save_uploaded_image_ok [OF assms r]
  have ok: "p = stored_path d role f" "allowed_image (sanitized_name f)"
    "dk' p = Some (File (content f))" by auto
  show "p = zero_pad 4 (year d) @ ''/'' @ zero_pad 2 (month d) @ ''/'' @ zero_pad 2 (day d) @ ''/''
              @ role @ ''-'' @ uuid_hex f @ ''.'' @ lower (after_last_dot (sanitized_name f))"
    using ok(1) stored_path_allowed [OF ok(2)] by simp
  show "lower (after_last_dot (sanitized_name f)) \<in> set ALLOWED_IMAGE_EXTENSIONS"
    using ok(2) by (auto simp: allowed_image_def split: if_splits)
  show "snd (save_uploaded_image f edate role dk) p = Some (File (content f))"
    using ok(3) r by simp
next
  assume a: "sanitized_name f \<noteq> [] \<and> allowed_image (sanitized_name f) \<and> save_outcome f = Saved \<and>
      (\<forall>q \<in> set (date_dirs d). \<not> is_file dk q) \<and> dk (stored_path d role f) \<noteq> Some Dir"
  then show "fst (save_uploaded_image f edate role dk) = Inr (stored_path d role f)"
    using save_uploaded_image_success [OF assms, of f dk role] by simp
qed

theorem save_uploaded_image_result_witness:
  "strptime_ymd ''2024-03-05'' = Inr \<lparr>year = 2024, month = 3, day = 5\<rparr> \<and>
   sanitized_name (photo_upload ''cat.JPG'' ''ab12'') = ''cat.JPG'' \<and>
   allowed_image ''cat.JPG'' \<and>
   save_outcome (photo_upload ''cat.JPG'' ''ab12'') = Saved \<and>
   fst (save_uploaded_image (photo_upload ''cat.JPG'' ''ab12'') ''2024-03-05'' ''photo'' Map.empty)
     = Inr ''2024/03/05/photo-ab12.jpg'' \<and>
   snd (save_uploaded_image (photo_upload ''cat.JPG'' ''ab12'') ''2024-03-05'' ''photo'' Map.empty)
     ''2024/03/05/photo-ab12.jpg'' = Some (File ''data'') \<and>
   sanitized_name (photo_upload ''notes.txt'' ''ab12'') = ''notes.txt'' \<and>
   fst (save_uploaded_image (photo_upload ''notes.txt'' ''ab12'') ''2024-03-05'' ''photo'' Map.empty)
     = Inl (ValueError (''Unsupported image format for '' @ [CHR 0x27] @ ''notes.txt'' @ [CHR 0x27]
            @ ''. Use jpg, png, webp, gif, heic, or heif.''))"
proof -
  let ?f = "photo_upload ''cat.JPG'' ''ab12''"
  let ?d = "\<lparr>year = 2024, month = 3, day = 5\<rparr>"
  have n: "sanitized_name ?f = ''cat.JPG''" by (simp add: photo_upload_def name_eval)
  have al: "allowed_image ''cat.JPG''" by (simp add: name_eval)
  have sv: "save_outcome ?f = Saved" by (simp add: photo_upload_def)
  have dirs: "\<forall>q \<in> set (date_dirs ?d). \<not> is_file Map.empty q" by (simp add: is_file_def)
  have sp: "stored_path ?d ''photo'' ?f = ''2024/03/05/photo-ab12.jpg''"
    unfolding stored_path_def n
    by (simp add: zero_pad4 zero_pad2 digit_char_def char_of_nat_eq
        photo_upload_def path_suffix_def path_name_def after_last_dot_def lower_def lower_char_def)
  note main = save_uploaded_image_result [OF strptime_example, of ?f "''photo''" Map.empty]
  have r1: "fst (save_uploaded_image ?f ''2024-03-05'' ''photo'' Map.empty) = Inr ''2024/03/05/photo-ab12.jpg''"
    using main n al sv dirs sp by simp
  have r2: "snd (save_uploaded_image ?f ''2024-03-05'' ''photo'' Map.empty)
     ''2024/03/05/photo-ab12.jpg'' = Some (File ''data'')"
  proof -
    have c: "content ?f = ''data''" by (simp add: photo_upload_def)
    from main r1 have "snd (save_uploaded_image ?f ''2024-03-05'' ''photo'' Map.empty)
       ''2024/03/05/photo-ab12.jpg'' = Some (File (content ?f))" by blast
    then show ?thesis by (simp only: c)
  qed
  let ?g = "photo_upload ''notes.txt'' ''ab12''"
  have n2: "sanitized_name ?g = ''notes.txt''" by (simp add: photo_upload_def name_eval)
  have nal: "\<not> allowed_image ''notes.txt''" by (simp add: name_eval)
  have "\<exists>msg. fst (save_uploaded_image ?g ''2024-03-05'' ''photo'' Map.empty) = Inl (ValueError msg)"
    using save_uploaded_image_result [OF strptime_example, of ?g "''photo''" Map.empty] n2 nal by simp
  then have r3: "fst (save_uploaded_image ?g ''2024-03-05'' ''photo'' Map.empty)
     = Inl (ValueError (''Unsupported image format for '' @ [CHR 0x27] @ ''notes.txt'' @ [CHR 0x27]
            @ ''. Use jpg, png, webp, gif, heic, or heif.''))"
    using n2 nal by (auto simp: save_uploaded_image_cases [OF strptime_example])
  show ?thesis using strptime_example n al sv r1 r2 n2 r3 by simp
qed

text \<open>
  C6 as stated fails on the supplied file name: \<open>_.png\<close> is not empty and its extension
  \<open>png\<close> is allowed, yet the save raises, because \<open>secure_filename\<close> turns the name
  into \<open>png\<close>; and \<open>a.png.\<close> has an empty extension, yet the save succeeds, because
  the name becomes \<open>a.png\<close>.
\<close>

theorem save_uploaded_image_counterexample:
  "filename (photo_upload ''_.png'' ''ab12'') = Some ''_.png'' \<and>
   lower (after_last_dot ''_.png'') = ''png'' \<and>
   ''png'' \<in> set ALLOWED_IMAGE_EXTENSIONS \<and>
   fst (save_uploaded_image (photo_upload ''_.png'' ''ab12'') ''2024-03-05'' ''photo'' Map.empty)
     = Inl (ValueError (''Unsupported image format for '' @ [CHR 0x27] @ ''png'' @ [CHR 0x27]
            @ ''. Use jpg, png, webp, gif, heic, or heif.'')) \<and>
   filename (photo_upload ''a.png.'' ''ab12'') = Some ''a.png.'' \<and>
   lower (after_last_dot ''a.png.'') = [] \<and>
   [] \<notin> set ALLOWED_IMAGE_EXTENSIONS \<and>
   fst (save_uploaded_image (photo_upload ''a.png.'' ''ab12'') ''2024-03-05'' ''photo'' Map.empty)
     = Inr ''2024/03/05/photo-ab12.png''"
proof -
  have n1: "sanitized_name (photo_upload ''_.png'' ''ab12'') = ''png''"
    by (simp add: photo_upload_def name_eval)
  have a1: "\<not> allowed_image ''png''" by (simp add: name_eval)
  have r1: "fst (save_uploaded_image (photo_upload ''_.png'' ''ab12'') ''2024-03-05'' ''photo'' Map.empty)
     = Inl (ValueError (''Unsupported image format for '' @ [CHR 0x27] @ ''png'' @ [CHR 0x27]
            @ ''. Use jpg, png, webp, gif, heic, or heif.''))"
    using n1 a1 by (simp add: save_uploaded_image_cases [OF strptime_example])
  let ?f = "photo_upload ''a.png.'' ''ab12''"
  let ?d = "\<lparr>year = 2024, month = 3, day = 5\<rparr>"
  have n2: "sanitized_name ?f = ''a.png''" by (simp add: photo_upload_def name_eval)
  have a2: "allowed_image ''a.png''" by (simp add: name_eval)
  have sp: "stored_path ?d ''photo'' ?f = ''2024/03/05/photo-ab12.png''"
    unfolding stored_path_def n2
    by (simp add: zero_pad4 zero_pad2 digit_char_def char_of_nat_eq
        photo_upload_def path_suffix_def path_name_def after_last_dot_def lower_def lower_char_def)
  have r2: "fst (save_uploaded_image ?f ''2024-03-05'' ''photo'' Map.empty) = Inr ''2024/03/05/photo-ab12.png''"
    using save_uploaded_image_success [OF strptime_example, of ?f Map.empty "''photo''"] n2 a2 sp
    by (simp add: photo_upload_def is_file_def)
  show ?thesis
    using r1 r2 by (simp add: photo_upload_def name_eval)
qed

section \<open>Effects on the disk\<close>

lemma delete_image_is_file:
  "delete_image p dk = Inr dk' \<Longrightarrow> q \<noteq> p \<Longrightarrow> is_file dk' q = is_file dk q"
  by (auto simp: delete_image_eq is_file_def split: if_splits)

lemma delete_images_eq:
  "delete_images ps dk =
     (Inr (), \<lambda>q. if q \<in> set ps \<and> q \<noteq> [] \<and> is_file dk q then None else dk q)"
proof (induction ps arbitrary: dk)
  case Nil
  show ?case by simp
next
  case (Cons p ps)
  let ?dk1 = "if p \<noteq> [] \<and> is_file dk p then dk(p := None) else dk"
  have "delete_images (p # ps) dk = delete_images ps ?dk1"
    by (simp add: delete_image_eq)
  also have "\<dots> = (Inr (), \<lambda>q. if q \<in> set ps \<and> q \<noteq> [] \<and> is_file ?dk1 q then None else ?dk1 q)"
    by (rule Cons.IH)
  also have "(\<lambda>q. if q \<in> set ps \<and> q \<noteq> [] \<and> is_file ?dk1 q then None else ?dk1 q) =
      (\<lambda>q. if q \<in> set (p # ps) \<and> q \<noteq> [] \<and> is_file dk q then None else dk q)"
    by (rule ext) (auto simp: is_file_def)
  finally show ?case .
qed

lemma mkdir_parents_files:
  "mkdir_parents y m d dk = Inr dk' \<Longrightarrow> dk q = Some (File c) \<Longrightarrow> dk' q = Some (File c)"
  by (auto simp: mkdir_parents_def Let_def is_file_def split: if_splits)

lemma file_save_frame:
  "file_save f p dk = (r, dk') \<Longrightarrow> q \<noteq> p \<Longrightarrow> dk' q = dk q"
  by (auto simp: file_save_def split: if_splits save_outcome.splits option.splits)

lemma file_save_is_file:
  "file_save f p dk = (r, dk') \<Longrightarrow> is_file dk q \<Longrightarrow> is_file dk' q"
  by (auto simp: file_save_def is_file_def split: if_splits save_outcome.splits option.splits)

lemma save_uploaded_image_run:
  assumes "strptime_ymd edate = Inr d" "save_uploaded_image f edate role dk = (r, dk')"
  shows "dk' = dk \<or>
     (\<exists>dk1 r1. mkdir_parents (zero_pad 4 (year d)) (zero_pad 2 (month d)) (zero_pad 2 (day d)) dk
                  = Inr dk1 \<and>
               file_save f (stored_path d role f) dk1 = (r1, dk'))"
proof (cases "sanitized_name f = [] \<or> \<not> allowed_image (sanitized_name f)")
  case True
  then show ?thesis using assms(2)
    by (auto simp: save_uploaded_image_cases [OF assms(1)] split: if_splits)
next
  case False
  show ?thesis
  proof (cases "mkdir_parents (zero_pad 4 (year d)) (zero_pad 2 (month d)) (zero_pad 2 (day d)) dk")
    case (Inl e)
    then show ?thesis using False assms(2) by (simp add: save_uploaded_image_cases [OF assms(1)])
  next
    case (Inr dk1)
    obtain r1 dk2 where fsv: "file_save f (stored_path d role f) dk1 = (r1, dk2)"
      by (cases "file_save f (stored_path d role f) dk1") auto
    have "dk' = dk2"
      using False assms(2) Inr fsv
      by (cases r1) (simp_all add: save_uploaded_image_cases [OF assms(1)])
    then show ?thesis using Inr fsv by blast
  qed
qed

lemma save_uploaded_image_no_date:
  "strptime_ymd edate = Inl e \<Longrightarrow> save_uploaded_image f edate role dk = (r, dk') \<Longrightarrow> dk' = dk"
  by (auto simp: save_uploaded_image_def Let_def split: if_splits)

lemma save_uploaded_image_keeps_files:
  assumes "save_uploaded_image f edate role dk = (r, dk')" "is_file dk q"
  shows "is_file dk' q"
proof (cases "strptime_ymd edate")
  case (Inl e)
  with assms show ?thesis using save_uploaded_image_no_date by blast
next
  case (Inr d)
  from assms(2) obtain c where c: "dk q = Some (File c)" by (auto simp: is_file_iff)
  from save_uploaded_image_run [OF Inr assms(1)] show ?thesis
  proof
    assume "dk' = dk"
    with assms(2) show ?thesis by simp
  next
    assume "\<exists>dk1 r1. mkdir_parents (zero_pad 4 (year d)) (zero_pad 2 (month d)) (zero_pad 2 (day d)) dk
                  = Inr dk1 \<and>
               file_save f (stored_path d role f) dk1 = (r1, dk')"
    then obtain dk1 r1 where
      m: "mkdir_parents (zero_pad 4 (year d)) (zero_pad 2 (month d)) (zero_pad 2 (day d)) dk = Inr dk1"
      and s: "file_save f (stored_path d role f) dk1 = (r1, dk')" by blast
    have "dk1 q = Some (File c)" using m c by (rule mkdir_parents_files)
    then have "is_file dk1 q" by (auto simp: is_file_iff)
    with s show ?thesis by (rule file_save_is_file)
  qed
qed

lemma save_uploaded_image_frame:
  assumes "save_uploaded_image f edate role dk = (r, dk')" "dk q = Some (File c)"
    "\<And>d. strptime_ymd edate = Inr d \<Longrightarrow> q \<noteq> stored_path d role f"
  shows "dk' q = Some (File c)"
proof (cases "strptime_ymd edate")
  case (Inl e)
  with assms show ?thesis using save_uploaded_image_no_date by blast
next
  case (Inr d)
  have ne: "q \<noteq> stored_path d role f" using assms(3) Inr by blast
  from save_uploaded_image_run [OF Inr assms(1)] show ?thesis
  proof
    assume "dk' = dk"
    with assms(2) show ?thesis by simp
  next
    assume "\<exists>dk1 r1. mkdir_parents (zero_pad 4 (year d)) (zero_pad 2 (month d)) (zero_pad 2 (day d)) dk
                  = Inr dk1 \<and>
               file_save f (stored_path d role f) dk1 = (r1, dk')"
    then obtain dk1 r1 where
      m: "mkdir_parents (zero_pad 4 (year d)) (zero_pad 2 (month d)) (zero_pad 2 (day d)) dk = Inr dk1"
      and s: "file_save f (stored_path d role f) dk1 = (r1, dk')" by blast
    have "dk1 q = Some (File c)" using m assms(2) by (rule mkdir_parents_files)
    then show ?thesis using file_save_frame [OF s ne] by simp
  qed
qed

lemma stored_path_not_empty: "stored_path d role f \<noteq> []"
  by (simp add: stored_path_def)

lemma save_uploaded_image_saved:
  assumes "save_uploaded_image f edate role dk = (Inr p, dk')"
  shows "p \<noteq> [] \<and> is_file dk' p \<and> (\<exists>d. strptime_ymd edate = Inr d \<and> p = stored_path d role f)"
proof (cases "strptime_ymd edate")
  case (Inl e)
  with assms show ?thesis
    by (auto simp: save_uploaded_image_def Let_def split: if_splits)
next
  case (Inr d)
  from save_uploaded_image_ok [OF Inr assms] show ?thesis
    using Inr by (auto simp: is_file_iff stored_path_not_empty)
qed

section \<open>The views take steps\<close>

lemma attempt_steps_refl: "attempt_steps eid edate ups st st"
  by (simp add: attempt_steps_def)

lemma attempt_steps_trans:
  "attempt_steps eid edate ups a b \<Longrightarrow> attempt_steps eid edate ups b c \<Longrightarrow>
   attempt_steps eid edate ups a c"
  by (simp add: attempt_steps_def)

lemma attempt_steps_one: "attempt_step eid edate ups a b \<Longrightarrow> attempt_steps eid edate ups a b"
  by (simp add: attempt_steps_def)

lemma attempt_steps_induct:
  assumes "attempt_steps eid edate ups a b" "P a"
    "\<And>x y. P x \<Longrightarrow> attempt_step eid edate ups x y \<Longrightarrow> P y"
  shows "P b"
  using assms(1) unfolding attempt_steps_def
  by (induction rule: rtranclp_induct) (use assms(2,3) in auto)

lemma entries_insert_asset [simp]: "entries (insert_asset eid k p cap ix ts db) = entries db"
  by (simp add: insert_asset_def)

lemma assets_insert_asset:
  "assets (insert_asset eid k p cap ix ts db) =
     assets db @ [\<lparr>a_id = next_id (map a_id (assets db)), entry_id = eid, kind = k,
                   file_path = p, caption = cap, sort_index = ix, a_created_at = ts\<rparr>]"
  by (simp add: insert_asset_def)

lemma store_photos_steps:
  assumes "\<forall>f \<in> set fs. (''photo'', f) \<in> set ups"
    "eid \<in> set (map e_id (entries (conn st)))"
    "store_photos_from eid edate caps ts i fs ix st = (r, st')"
  shows "attempt_steps eid edate ups st st'"
  using assms
proof (induction fs arbitrary: i ix st)
  case Nil
  then show ?case by (simp add: attempt_steps_refl)
next
  case (Cons f fs)
  have ups: "(''photo'', f) \<in> set ups" "\<forall>f \<in> set fs. (''photo'', f) \<in> set ups"
    using Cons.prems(1) by auto
  show ?case
  proof (cases "has_filename f")
    case False
    with Cons.prems have "store_photos_from eid edate caps ts (Suc i) fs ix st = (r, st')" by simp
    then show ?thesis using Cons.IH [OF ups(2) Cons.prems(2)] by blast
  next
    case True
    obtain r1 dk1 where sv: "save_uploaded_image f edate ''photo'' (disk st) = (r1, dk1)"
      by (cases "save_uploaded_image f edate ''photo'' (disk st)") auto
    show ?thesis
    proof (cases r1)
      case (Inl e)
      with Cons.prems(3) True sv have "st' = st\<lparr>disk := dk1\<rparr>" by simp
      moreover have "attempt_step eid edate ups st (st\<lparr>disk := dk1\<rparr>)"
        using ups(1) sv Inl by (auto intro: attempt_step.save_failed)
      ultimately show ?thesis by (simp add: attempt_steps_one)
    next
      case (Inr p)
      define cap where "cap = (if i < length caps then strip (caps ! i) else [])"
      let ?st1 = "st\<lparr>disk := dk1, saved_files := saved_files st @ [p],
          conn := insert_asset eid photo p cap ix ts (conn st)\<rparr>"
      have run: "store_photos_from eid edate caps ts (Suc i) fs (ix + 1) ?st1 = (r, st')"
        using Cons.prems(3) True sv Inr by (simp add: Let_def cap_def)
      have one: "attempt_step eid edate ups st ?st1"
        using ups(1) sv Inr Cons.prems(2) by (auto intro: attempt_step.photo_saved)
      have "eid \<in> set (map e_id (entries (conn ?st1)))" using Cons.prems(2) by simp
      from Cons.IH [OF ups(2) this run] have "attempt_steps eid edate ups ?st1 st'" .
      then show ?thesis using attempt_steps_one [OF one] attempt_steps_trans by blast
    qed
  qed
qed

lemma new_notebook_steps:
  assumes "\<forall>f. nfile = Some f \<longrightarrow> (''notebook'', f) \<in> set ups"
    "eid \<in> set (map e_id (entries (conn st)))" "notebook_rows (conn st) eid = []"
    "new_notebook eid edate cap ts nfile st = (r, st')"
  shows "attempt_steps eid edate ups st st'"
proof (cases nfile)
  case None
  with assms(4) show ?thesis by (simp add: new_notebook_def attempt_steps_refl)
next
  case (Some f)
  then have up: "(''notebook'', f) \<in> set ups" using assms(1) by simp
  show ?thesis
  proof (cases "has_filename f")
    case False
    with assms(4) Some show ?thesis by (simp add: new_notebook_def attempt_steps_refl)
  next
    case True
    obtain r1 dk1 where sv: "save_uploaded_image f edate ''notebook'' (disk st) = (r1, dk1)"
      by (cases "save_uploaded_image f edate ''notebook'' (disk st)") auto
    show ?thesis
    proof (cases r1)
      case (Inl e)
      with assms(4) Some True sv have "st' = st\<lparr>disk := dk1\<rparr>" by (simp add: new_notebook_def)
      moreover have "attempt_step eid edate ups st (st\<lparr>disk := dk1\<rparr>)"
        using up sv Inl by (auto intro: attempt_step.save_failed)
      ultimately show ?thesis by (simp add: attempt_steps_one)
    next
      case (Inr p)
      with assms(4) Some True sv
      have "st' = st\<lparr>disk := dk1, saved_files := saved_files st @ [p],
          conn := insert_asset eid notebook_page p cap 0 ts (conn st)\<rparr>"
        by (simp add: new_notebook_def)
      moreover have "attempt_step eid edate ups st
         (st\<lparr>disk := dk1, saved_files := saved_files st @ [p],
          conn := insert_asset eid notebook_page p cap 0 ts (conn st)\<rparr>)"
        using up sv Inr assms(2,3) by (auto intro: attempt_step.notebook_saved)
      ultimately show ?thesis by (simp add: attempt_steps_one)
    qed
  qed
qed

lemma fold_max_ge: "x \<in> set xs \<Longrightarrow> x \<le> fold max xs (a::nat)"
proof (induction xs arbitrary: a)
  case Nil
  then show ?case by simp
next
  case (Cons y ys)
  have mono: "b \<le> fold max ys b" for b :: nat
    by (induction ys arbitrary: b) (auto intro: order_trans [OF max.cobounded2])
  show ?case
  proof (cases "x = y")
    case True
    then show ?thesis using mono [of "max y a"] by simp
  next
    case False
    with Cons show ?thesis by simp
  qed
qed

lemma next_id_fresh: "next_id ids \<notin> set ids"
  using fold_max_ge [of "next_id ids" ids 0] by (auto simp: next_id_def)


lemma wf_db_new_entry_no_assets:
  assumes "wf_db db"
  shows "filter (\<lambda>a. entry_id a = next_id (map e_id (entries db))) (assets db) = []"
proof -
  have "entry_id a \<noteq> next_id (map e_id (entries db))" if "a \<in> set (assets db)" for a
  proof -
    have "entry_id a \<in> set (map e_id (entries db))"
      using assms that by (simp add: wf_db_def)
    then show ?thesis using next_id_fresh [of "map e_id (entries db)"] by metis
  qed
  then show ?thesis by (simp add: filter_empty_conv)
qed

lemma map_key_update_where:
  assumes "\<And>x. k (g x) = k x"
  shows "map k (update_where p g xs) = map k xs"
  using assms by (induction xs) (auto simp: update_where_def)

lemma image_key_update_where:
  assumes "\<And>x. k (g x) = k x"
  shows "k ` set (update_where p g xs) = k ` set xs"
  using map_key_update_where [of k g p xs] assms by (metis set_map)

lemma entries_step_ids:
  assumes "attempt_step eid edate ups x y"
  shows "set (map e_id (entries (conn x))) \<subseteq> set (map e_id (entries (conn y)))"
  using assms
  by cases (auto simp: insert_entry_def Let_def image_key_update_where)

lemma entries_steps_ids:
  assumes "attempt_steps eid edate ups x y" "i \<in> set (map e_id (entries (conn x)))"
  shows "i \<in> set (map e_id (entries (conn y)))"
  using assms(1,2) by (rule attempt_steps_induct) (use entries_step_ids in blast)

lemma new_try_steps:
  assumes "wf_db (conn st)"
    "\<forall>f. nfile = Some f \<longrightarrow> (''notebook'', f) \<in> set ups"
    "\<forall>f \<in> set pfiles. (''photo'', f) \<in> set ups"
    "new_try edate ttl body ncap nfile pfiles pcaps ts st = (r, st')"
  shows "attempt_steps (next_id (map e_id (entries (conn st)))) edate ups st st'"
proof -
  let ?eid = "next_id (map e_id (entries (conn st)))"
  obtain db1 where ie: "insert_entry edate ttl body ts ts (conn st) = (?eid, db1)"
    by (simp add: insert_entry_def Let_def)
  let ?st1 = "st\<lparr>conn := db1\<rparr>"
  have db1: "entries db1 = entries (conn st) @ [\<lparr>e_id = ?eid, entry_date = edate, title = ttl,
      body_markdown = body, created_at = ts, updated_at = ts\<rparr>]" "assets db1 = assets (conn st)"
    using ie by (auto simp: insert_entry_def Let_def)
  have s1: "attempt_steps ?eid edate ups st ?st1"
    using ie by (auto intro: attempt_steps_one attempt_step.entry_inserted)
  have mem: "?eid \<in> set (map e_id (entries (conn ?st1)))" by (simp add: db1)
  have nonb: "notebook_rows (conn ?st1) ?eid = []"
    using wf_db_new_entry_no_assets [OF assms(1)]
    by (simp add: notebook_rows_def db1 filter_empty_conv)
  obtain r2 st2 where nb: "new_notebook ?eid edate ncap ts nfile ?st1 = (r2, st2)"
    by (cases "new_notebook ?eid edate ncap ts nfile ?st1") auto
  have s2: "attempt_steps ?eid edate ups ?st1 st2"
    using new_notebook_steps [OF assms(2) mem nonb nb] .
  have e2: "?eid \<in> set (map e_id (entries (conn st2)))"
    using s2 mem by (rule entries_steps_ids)
  show ?thesis
  proof (cases r2)
    case (Inl e)
    then have "st' = st2" using assms(4) ie nb by (simp add: new_try_def)
    then show ?thesis using s1 s2 attempt_steps_trans by blast
  next
    case (Inr u)
    obtain r3 st3 where sp: "store_new_photos ?eid edate pfiles pcaps 0 ts st2 = (r3, st3)"
      by (cases "store_new_photos ?eid edate pfiles pcaps 0 ts st2") auto
    have "st' = st3" using assms(4) ie nb Inr sp by (cases r3) (simp_all add: new_try_def)
    moreover have "attempt_steps ?eid edate ups st2 st3"
      using store_photos_steps [OF assms(3) e2] sp by (simp add: store_new_photos_def)
    ultimately show ?thesis using s1 s2 attempt_steps_trans by blast
  qed
qed

lemma update_existing_photos_steps:
  "update_existing_photos eid paths dels caps i ids ix st = (ix', st') \<Longrightarrow>
   attempt_steps eid edate ups st st'"
proof (induction ids arbitrary: i ix st)
  case Nil
  then show ?case by (simp add: attempt_steps_refl)
next
  case (Cons raw rest)
  show ?case
  proof (cases "paths raw")
    case None
    with Cons show ?thesis by simp
  next
    case (Some path)
    show ?thesis
    proof (cases "raw \<in> set dels")
      case True
      let ?st1 = "st\<lparr>conn := (conn st)\<lparr>assets :=
                            delete_where
                              (\<lambda>a. a_id a = int_str raw \<and> entry_id a = eid \<and> kind a = photo)
                              (assets (conn st))\<rparr>,
                         files_to_remove_after_commit :=
                           files_to_remove_after_commit st @ [path]\<rparr>"
      have "update_existing_photos eid paths dels caps (Suc i) rest ix ?st1 = (ix', st')"
        using Cons.prems Some True by (simp add: Let_def)
      then have "attempt_steps eid edate ups ?st1 st'" by (rule Cons.IH)
      moreover have "attempt_step eid edate ups st ?st1" by (rule attempt_step.photo_deleted)
      ultimately show ?thesis using attempt_steps_one attempt_steps_trans by blast
    next
      case False
      define cap where "cap = (if i < length caps then strip (caps ! i) else [])"
      let ?st1 = "st\<lparr>conn := (conn st)\<lparr>assets :=
                                update_where
                                  (\<lambda>a. a_id a = int_str raw \<and> entry_id a = eid \<and> kind a = photo)
                                  (\<lambda>a. a\<lparr>caption := cap, sort_index := ix\<rparr>)
                                  (assets (conn st))\<rparr>\<rparr>"
      have "update_existing_photos eid paths dels caps (Suc i) rest (ix + 1) ?st1 = (ix', st')"
        using Cons.prems Some False by (simp add: Let_def cap_def)
      then have "attempt_steps eid edate ups ?st1 st'" by (rule Cons.IH)
      moreover have "attempt_step eid edate ups st ?st1" by (rule attempt_step.photo_updated)
      ultimately show ?thesis using attempt_steps_one attempt_steps_trans by blast
    qed
  qed
qed

lemma existing_notebook_of_Some:
  assumes "existing_notebook_of db eid = Some nb" "distinct (map a_id (assets db))"
  shows "nb \<in> set (assets db) \<and> entry_id nb = eid \<and> kind nb = notebook_page \<and>
         (\<forall>a \<in> set (assets db). a_id a = a_id nb \<longrightarrow> a = nb)"
proof -
  from assms(1) obtain rest where
    "filter (\<lambda>a. entry_id a = eid \<and> kind a = notebook_page) (assets db) = nb # rest"
    by (auto simp: existing_notebook_of_def split: list.splits)
  then have "nb \<in> set (filter (\<lambda>a. entry_id a = eid \<and> kind a = notebook_page) (assets db))"
    by simp
  then have m: "nb \<in> set (assets db)" "entry_id nb = eid" "kind nb = notebook_page" by auto
  moreover have "a = nb" if "a \<in> set (assets db)" "a_id a = a_id nb" for a
    using that m(1) assms(2) by (meson distinct_map inj_onD)
  ultimately show ?thesis by blast
qed

lemma existing_notebook_of_None:
  "existing_notebook_of db eid = None \<Longrightarrow> notebook_rows db eid = []"
  by (auto simp: existing_notebook_of_def notebook_rows_def split: list.splits)

lemma edit_notebook_steps:
  assumes "\<forall>f. nrep = Some f \<longrightarrow> (''notebook'', f) \<in> set ups"
    "eid \<in> set (map e_id (entries (conn st)))"
    "distinct (map a_id (assets (conn st)))"
    "existing_notebook_of db0 eid = existing" "assets db0 = assets (conn st)"
    "edit_notebook eid edate cap ts nrep existing st = (r, st')"
  shows "attempt_steps eid edate ups st st'"
proof -
  have ex: "existing_notebook_of (conn st) eid = existing"
    using assms(4,5) by (simp add: existing_notebook_of_def)
  have guard: "\<forall>a \<in> set (assets (conn st)). a_id a = a_id nb \<longrightarrow> entry_id a = eid"
    if "existing = Some nb" for nb
    using existing_notebook_of_Some [OF _ assms(3), of eid nb] ex that by auto
  have caption_only: "attempt_steps eid edate ups st
     (snd (case existing of
               None \<Rightarrow> (Inr (), st)
             | Some nb \<Rightarrow>
                 (Inr (),
                  st\<lparr>conn := (conn st)\<lparr>assets :=
                        update_where (\<lambda>a. a_id a = a_id nb)
                          (\<lambda>a. a\<lparr>caption := cap\<rparr>) (assets (conn st))\<rparr>\<rparr>)))"
  proof (cases existing)
    case None
    then show ?thesis by (simp add: attempt_steps_refl)
  next
    case (Some nb)
    then show ?thesis
      using guard [OF Some]
      by (auto intro!: attempt_steps_one attempt_step.notebook_captioned)
  qed
  show ?thesis
  proof (cases "\<exists>f. nrep = Some f \<and> has_filename f")
    case False
    then have eq: "st' = snd (case existing of
               None \<Rightarrow> (Inr (), st)
             | Some nb \<Rightarrow>
                 (Inr (),
                  st\<lparr>conn := (conn st)\<lparr>assets :=
                        update_where (\<lambda>a. a_id a = a_id nb)
                          (\<lambda>a. a\<lparr>caption := cap\<rparr>) (assets (conn st))\<rparr>\<rparr>))"
      using assms(6) by (cases nrep; cases existing) (auto simp: edit_notebook_def Let_def)
    show ?thesis by (subst eq) (rule caption_only)
  next
    case True
    then obtain f where f: "nrep = Some f" "has_filename f" by blast
    then have up: "(''notebook'', f) \<in> set ups" using assms(1) by simp
    obtain r1 dk1 where sv: "save_uploaded_image f edate ''notebook'' (disk st) = (r1, dk1)"
      by (cases "save_uploaded_image f edate ''notebook'' (disk st)") auto
    show ?thesis
    proof (cases r1)
      case (Inl e)
      then have "st' = st\<lparr>disk := dk1\<rparr>"
        using assms(6) f sv by (simp add: edit_notebook_def Let_def)
      moreover have "attempt_step eid edate ups st (st\<lparr>disk := dk1\<rparr>)"
        using up sv Inl by (auto intro: attempt_step.save_failed)
      ultimately show ?thesis by (simp add: attempt_steps_one)
    next
      case (Inr p)
      show ?thesis
      proof (cases existing)
        case None
        then have "st' = st\<lparr>disk := dk1, saved_files := saved_files st @ [p],
            conn := insert_asset eid notebook_page p cap 0 ts (conn st)\<rparr>"
          using assms(6) f sv Inr by (simp add: edit_notebook_def Let_def)
        moreover have "attempt_step eid edate ups st
           (st\<lparr>disk := dk1, saved_files := saved_files st @ [p],
            conn := insert_asset eid notebook_page p cap 0 ts (conn st)\<rparr>)"
          using up sv Inr assms(2) existing_notebook_of_None [of "conn st" eid] ex None
          by (auto intro: attempt_step.notebook_saved)
        ultimately show ?thesis by (simp add: attempt_steps_one)
      next
        case (Some nb)
        then have "st' = st\<lparr>disk := dk1, saved_files := saved_files st @ [p],
            conn := (conn st)\<lparr>assets :=
              update_where (\<lambda>a. a_id a = a_id nb)
                (\<lambda>a. a\<lparr>file_path := p, caption := cap, a_created_at := ts\<rparr>)
                (assets (conn st))\<rparr>,
            files_to_remove_after_commit := files_to_remove_after_commit st @ [file_path nb]\<rparr>"
          using assms(6) f sv Inr by (simp add: edit_notebook_def Let_def)
        moreover have "attempt_step eid edate ups st
           (st\<lparr>disk := dk1, saved_files := saved_files st @ [p],
            conn := (conn st)\<lparr>assets :=
              update_where (\<lambda>a. a_id a = a_id nb)
                (\<lambda>a. a\<lparr>file_path := p, caption := cap, a_created_at := ts\<rparr>)
                (assets (conn st))\<rparr>,
            files_to_remove_after_commit := files_to_remove_after_commit st @ [file_path nb]\<rparr>)"
          using up sv Inr guard [OF Some] by (auto intro: attempt_step.notebook_replaced)
        ultimately show ?thesis by (simp add: attempt_steps_one)
      qed
    qed
  qed
qed


lemma edit_try_steps:
  assumes "distinct (map a_id (assets (conn st)))"
    "eid \<in> set (map e_id (entries (conn st)))"
    "\<forall>f. multi_get (files req) ''notebook_page'' = Some f \<longrightarrow> (''notebook'', f) \<in> set ups"
    "\<forall>f \<in> set (getlist (files req) ''new_photos''). (''photo'', f) \<in> set ups"
    "existing_notebook_of (conn st) eid = existing"
    "edit_try eid edate ttl body ncap ts existing paths req st = (r, st')"
  shows "attempt_steps eid edate ups st st'"
proof -
  let ?st1 = "st\<lparr>conn := (conn st)\<lparr>entries :=
                   update_where (\<lambda>e. e_id e = eid)
                     (\<lambda>e. e\<lparr>entry_date := edate, title := ttl, body_markdown := body,
                            updated_at := ts\<rparr>)
                     (entries (conn st))\<rparr>\<rparr>"
  have one: "attempt_step eid edate ups st ?st1" by (rule attempt_step.entry_updated)
  then have s1: "attempt_steps eid edate ups st ?st1" by (rule attempt_steps_one)
  have e1: "eid \<in> set (map e_id (entries (conn ?st1)))"
    using s1 assms(2) by (rule entries_steps_ids)
  have d1: "distinct (map a_id (assets (conn ?st1)))" using assms(1) by simp
  obtain r2 st2 where nb: "edit_notebook eid edate ncap ts
      (multi_get (files req) ''notebook_page'') existing ?st1 = (r2, st2)"
    by (cases "edit_notebook eid edate ncap ts
      (multi_get (files req) ''notebook_page'') existing ?st1") auto
  have s2: "attempt_steps eid edate ups ?st1 st2"
    using edit_notebook_steps [OF assms(3) e1 d1 assms(5) _ nb] by simp
  have e2: "eid \<in> set (map e_id (entries (conn st2)))"
    using s2 e1 by (rule entries_steps_ids)
  show ?thesis
  proof (cases r2)
    case (Inl e)
    then have "st' = st2" using assms(6) nb by (simp add: edit_try_def)
    then show ?thesis using s1 s2 attempt_steps_trans by blast
  next
    case (Inr u)
    obtain ix st3 where lp: "update_existing_photos eid paths
                       (getlist (form req) ''existing_photo_delete'')
                       (getlist (form req) ''existing_photo_caption'') 0
                       (getlist (form req) ''existing_photo_id'') 0 st2 = (ix, st3)"
      by (cases "update_existing_photos eid paths
                       (getlist (form req) ''existing_photo_delete'')
                       (getlist (form req) ''existing_photo_caption'') 0
                       (getlist (form req) ''existing_photo_id'') 0 st2") auto
    have s3: "attempt_steps eid edate ups st2 st3"
      using lp by (rule update_existing_photos_steps)
    have e3: "eid \<in> set (map e_id (entries (conn st3)))"
      using s3 e2 by (rule entries_steps_ids)
    obtain r4 st4 where sp: "store_new_photos eid edate (getlist (files req) ''new_photos'')
                          (getlist (form req) ''new_photo_caption'') ix ts st3 = (r4, st4)"
      by (cases "store_new_photos eid edate (getlist (files req) ''new_photos'')
                          (getlist (form req) ''new_photo_caption'') ix ts st3") auto
    have s4: "attempt_steps eid edate ups st3 st4"
      using store_photos_steps [OF assms(4) e3] sp by (simp add: store_new_photos_def)
    have "st' = st4" using assms(6) nb Inr lp sp by (cases r4) (simp_all add: edit_try_def)
    then show ?thesis using s1 s2 s3 s4 attempt_steps_trans by blast
  qed
qed

lemma start_attempt_simps [simp]:
  "conn (start_attempt w) = w_db w" "disk (start_attempt w) = w_disk w"
  "saved_files (start_attempt w) = []" "files_to_remove_after_commit (start_attempt w) = []"
  by (simp_all add: start_attempt_def)

lemma create_attempt_steps:
  assumes "wf_db (w_db w)" "create_attempt ev req w = (r, st)"
  shows "attempt_steps (next_id (map e_id (entries (w_db w)))) (fst (create_date ev req))
           (create_uploads req) (start_attempt w) st"
proof -
  have a: "\<forall>f. multi_get (files req) ''notebook_page'' = Some f \<longrightarrow>
      (''notebook'', f) \<in> set (create_uploads req)"
    by (auto simp: create_uploads_def)
  have b: "\<forall>f \<in> set (getlist (files req) ''photos''). (''photo'', f) \<in> set (create_uploads req)"
    by (auto simp: create_uploads_def)
  have w: "wf_db (conn (start_attempt w))" using assms(1) by (simp add: start_attempt_def)
  show ?thesis
    using new_try_steps [OF w a b] assms(2)
    by (simp add: create_attempt_def)
qed

lemma fetch_entry_Some: "fetch_entry db eid = Some v \<Longrightarrow> eid \<in> set (map e_id (entries db))"
proof -
  assume "fetch_entry db eid = Some v"
  then have "filter (\<lambda>e. e_id e = eid) (entries db) \<noteq> []"
    by (auto simp: fetch_entry_def split: list.splits)
  then obtain e where "e \<in> set (entries db)" "e_id e = eid"
    by (auto simp: filter_empty_conv)
  then show ?thesis by auto
qed

lemma edit_attempt_steps:
  assumes "wf_db (w_db w)" "eid \<in> set (map e_id (entries (w_db w)))"
    "edit_attempt ev eid edate req w = (r, st)"
  shows "attempt_steps eid edate (edit_uploads req) (start_attempt w) st"
proof -
  have a: "\<forall>f. multi_get (files req) ''notebook_page'' = Some f \<longrightarrow>
      (''notebook'', f) \<in> set (edit_uploads req)"
    by (auto simp: edit_uploads_def)
  have b: "\<forall>f \<in> set (getlist (files req) ''new_photos''). (''photo'', f) \<in> set (edit_uploads req)"
    by (auto simp: edit_uploads_def)
  have d: "distinct (map a_id (assets (conn (start_attempt w))))"
    using assms(1) by (simp add: start_attempt_def wf_db_def)
  have e: "eid \<in> set (map e_id (entries (conn (start_attempt w))))"
    using assms(2) by (simp add: start_attempt_def)
  have x: "existing_notebook_of (conn (start_attempt w)) eid = existing_notebook_of (w_db w) eid"
    by (simp add: start_attempt_def)
  show ?thesis
    using edit_try_steps [OF d e a b x] assms(3)
    by (simp add: edit_attempt_def)
qed

end
